theory Spec2Isabelle
  imports Complex_Main "HOL-Library.Word"
begin

unbundle bit_operations_syntax

section \<open>The CAN bus, the clock and Python's exceptions\<close>

text \<open>
  \<^verbatim>\<open>GIM_diag.py\<close> drives a motor controller over a CAN bus through python-can. The
  class \<^verbatim>\<open>Gim6010CANDiagnostic\<close> holds a node id, fixed at construction, and a bus handle.
  The node id is passed to every operation as its first argument \<open>node_id\<close>
  (\<^verbatim>\<open>self.node_id\<close>); the bus and the wall clock are the explicit state \<open>world\<close>.

  A \<open>message\<close> is python-can's \<^verbatim>\<open>can.Message\<close> with the three fields the program
  sets or reads. Its \<open>data\<close> is a \<^verbatim>\<open>bytearray\<close>.
\<close>

type_synonym byte = "8 word"

record message =
  arbitration_id :: int
  data :: "byte list"
  is_extended_id :: bool

text \<open>
  Time is counted in seconds, as \<^verbatim>\<open>time.time()\<close> does, with exact rational values.
  The \<open>inbox\<close> lists the frames the bus will deliver, oldest first, each with the time at
  which it arrives; \<open>sent\<close> is the log of the frames handed to \<^verbatim>\<open>bus.send\<close>, oldest
  first. Only blocking calls (\<^verbatim>\<open>bus.recv\<close>, \<^verbatim>\<open>time.sleep\<close>) let time pass; printing
  to the console is not part of the model.
\<close>

record world =
  clock :: rat
  inbox :: "(rat \<times> message) list"
  sent :: "message list"

text \<open>
  The exceptions the program can raise by itself: \<^verbatim>\<open>IndexError\<close> from indexing a
  \<^verbatim>\<open>bytearray\<close> out of range, \<^verbatim>\<open>struct.error\<close> from \<^verbatim>\<open>struct.unpack\<close> on a buffer of
  the wrong size, \<^verbatim>\<open>ValueError\<close> from building a \<^verbatim>\<open>bytearray\<close> out of an integer outside
  \<open>0..255\<close>. No method of the class catches an exception, so a raise ends the running
  method and all its callers; the frames sent and the time spent so far remain.
\<close>

datatype error = IndexError | StructError | ValueError

type_synonym 'a prog = "world \<Rightarrow> (error + 'a) \<times> world"

definition return_prog :: "'a \<Rightarrow> 'a prog" where
  "return_prog x w = (Inr x, w)"

definition bind_prog :: "'a prog \<Rightarrow> ('a \<Rightarrow> 'b prog) \<Rightarrow> 'b prog" where
  "bind_prog m f w = (case m w of (Inl e, w') \<Rightarrow> (Inl e, w') | (Inr x, w') \<Rightarrow> f x w')"

text \<open>
  \<^verbatim>\<open>bus.recv(timeout)\<close>: the oldest pending frame if it arrives before the timeout runs
  out (at once if it has arrived already), else \<^verbatim>\<open>None\<close> after \<open>timeout\<close> seconds.
\<close>

definition recv :: "rat \<Rightarrow> world \<Rightarrow> message option \<times> world" where
  "recv timeout w =
     (case inbox w of
        [] \<Rightarrow> (None, w\<lparr>clock := clock w + timeout\<rparr>)
      | (t, msg) # rest \<Rightarrow>
          if t < clock w + timeout
          then (Some msg, w\<lparr>clock := max (clock w) t, inbox := rest\<rparr>)
          else (None, w\<lparr>clock := clock w + timeout\<rparr>))"

text \<open>\<^verbatim>\<open>bus.send(msg)\<close> and \<^verbatim>\<open>time.sleep(d)\<close>.\<close>

definition bus_send :: "message \<Rightarrow> world \<Rightarrow> world" where
  "bus_send msg w = w\<lparr>sent := sent w @ [msg]\<rparr>"

definition sleep :: "rat \<Rightarrow> world \<Rightarrow> world" where
  "sleep d w = w\<lparr>clock := clock w + d\<rparr>"

text \<open>
  \<^verbatim>\<open>bytearray(data)\<close>, which \<^verbatim>\<open>can.Message\<close> applies to a list of integers: every
  element must be in \<open>range(256)\<close>.
\<close>

definition bytearray :: "int list \<Rightarrow> error + byte list" where
  "bytearray xs =
     (if list_all (\<lambda>x. 0 \<le> x \<and> x < 256) xs then Inr (map word_of_int xs) else Inl ValueError)"

text \<open>
  \<^verbatim>\<open>struct.unpack('<I', b)\<close> (\<open>width = 4\<close>) and \<^verbatim>\<open>struct.unpack('<Q', b)\<close>
  (\<open>width = 8\<close>): the buffer must have exactly \<open>width\<close> bytes, read as an unsigned
  little-endian integer. \<^verbatim>\<open>struct.unpack('<f', b)\<close> has the size check of \<open>'<I'\<close>; its
  float is kept as the bit pattern it was read from.
\<close>

definition le_uint :: "byte list \<Rightarrow> int" where
  "le_uint bs = foldr (\<lambda>b acc. uint b + 256 * acc) bs 0"

definition unpack_le :: "nat \<Rightarrow> byte list \<Rightarrow> error + int" where
  "unpack_le width bs = (if length bs = width then Inr (le_uint bs) else Inl StructError)"

text \<open>\<^verbatim>\<open>b[i]\<close> on a \<^verbatim>\<open>bytearray\<close>, for \<open>i \<ge> 0\<close>.\<close>

definition byte_at :: "byte list \<Rightarrow> nat \<Rightarrow> error + int" where
  "byte_at bs i = (if i < length bs then Inr (uint (bs ! i)) else Inl IndexError)"

section \<open>Sending a command and waiting for a frame\<close>

text \<open>
  \<^verbatim>\<open>can_id = (self.node_id << 5) | cmd_id\<close>, computed alike by \<^verbatim>\<open>send_command\<close> and
  \<^verbatim>\<open>wait_for_message\<close>, on Python's unbounded integers.
\<close>

definition can_id :: "int \<Rightarrow> int \<Rightarrow> int" where
  "can_id node_id cmd_id = push_bit 5 node_id OR cmd_id"

definition send_command :: "int \<Rightarrow> int \<Rightarrow> int list option \<Rightarrow> unit prog" where
  "send_command node_id cmd_id data_arg w =
     (case bytearray (case data_arg of None \<Rightarrow> replicate 8 0 | Some d \<Rightarrow> d) of
        Inl e \<Rightarrow> (Inl e, w)
      | Inr bs \<Rightarrow>
          (Inr (),
           bus_send \<lparr>arbitration_id = can_id node_id cmd_id, data = bs,
                     is_extended_id = False\<rparr> w))"

text \<open>
  The loop of \<^verbatim>\<open>wait_for_message\<close>: the deadline is tested before each receive, and each
  receive may block for up to one second. A \<^verbatim>\<open>can.Message\<close> is always truthy, so
  \<^verbatim>\<open>if msg and ...\<close> tests that a frame was received.
\<close>

function wait_loop :: "int \<Rightarrow> rat \<Rightarrow> rat \<Rightarrow> world \<Rightarrow> message option \<times> world" where
  "wait_loop cid start_time timeout w =
     (if clock w - start_time < timeout then
        (case recv 1 w of
           (Some msg, w') \<Rightarrow>
             if arbitration_id msg = cid then (Some msg, w')
             else wait_loop cid start_time timeout w'
         | (None, w') \<Rightarrow> wait_loop cid start_time timeout w')
      else (None, w))"
  by pat_completeness auto

lemma recv_cases:
  "recv timeout w = (r, w') \<Longrightarrow>
     (r = None \<and> w' = w\<lparr>clock := clock w + timeout\<rparr> \<and>
        (\<forall>t msg rest. inbox w = (t, msg) # rest \<longrightarrow> clock w + timeout \<le> t)) \<or>
     (\<exists>t msg rest. inbox w = (t, msg) # rest \<and> t < clock w + timeout \<and> r = Some msg \<and>
        w' = w\<lparr>clock := max (clock w) t, inbox := rest\<rparr>)"
  by (auto simp: recv_def split: list.splits if_splits)

termination wait_loop
proof (relation "measure (\<lambda>(cid, start_time, timeout, w).
           length (inbox w) + nat \<lceil>start_time + timeout - clock w\<rceil>)", goal_cases)
  case 1
  show ?case by simp
next
  case (2 cid start_time timeout w x w')
  from 2(2)[symmetric] 2(3) have "recv 1 w = (None, w')" by simp
  from recv_cases[OF this] have w': "w' = w\<lparr>clock := clock w + 1\<rparr>" by auto
  have "0 < \<lceil>start_time + timeout - clock w\<rceil>" using 2(1) by simp
  moreover have "\<lceil>start_time + timeout - (clock w + 1)\<rceil> = \<lceil>start_time + timeout - clock w\<rceil> - 1"
    by (simp add: algebra_simps flip: ceiling_diff_one)
  ultimately have "nat \<lceil>start_time + timeout - (clock w + 1)\<rceil>
      < nat \<lceil>start_time + timeout - clock w\<rceil>"
    by linarith
  then show ?case by (simp add: w')
next
  case (3 cid start_time timeout w x w' msg)
  from 3(2)[symmetric] 3(3) have "recv 1 w = (Some msg, w')" by simp
  from recv_cases[OF this] obtain t rest where
    "inbox w = (t, msg) # rest" "w' = w\<lparr>clock := max (clock w) t, inbox := rest\<rparr>"
    by auto
  moreover have "nat \<lceil>start_time + timeout - max (clock w) t\<rceil>
      \<le> nat \<lceil>start_time + timeout - clock w\<rceil>"
    by (intro nat_mono ceiling_mono) simp
  ultimately show ?case by simp
qed

declare wait_loop.simps [simp del]

definition wait_for_message :: "int \<Rightarrow> int \<Rightarrow> rat \<Rightarrow> world \<Rightarrow> message option \<times> world" where
  "wait_for_message node_id cmd_id timeout w =
     wait_loop (can_id node_id cmd_id) (clock w) timeout w"

section \<open>What a wait returns\<close>

lemma wait_loop_Some:
  assumes "wait_loop cid s t w = (Some m, w')"
  shows "\<exists>pre a. inbox w = pre @ (a, m) # inbox w' \<and>
           (\<forall>x\<in>set pre. arbitration_id (snd x) \<noteq> cid) \<and> arbitration_id m = cid \<and>
           a < s + t + 1 \<and> a \<le> clock w' \<and> sent w' = sent w \<and> clock w \<le> clock w'"
  using assms
proof (induction cid s t w rule: wait_loop.induct)
  case (1 cid s t w)
  from "1.prems" have lt: "clock w - s < t"
    by (simp add: wait_loop.simps[of cid s t w] split: if_splits)
  obtain r1 w1 where r: "recv 1 w = (r1, w1)" by fastforce
  from recv_cases[OF r] show ?case
  proof (elim disjE conjE exE)
    assume n: "r1 = None" and w1: "w1 = w\<lparr>clock := clock w + 1\<rparr>"
    from "1.prems" lt r n have "wait_loop cid s t w1 = (Some m, w')"
      by (simp add: wait_loop.simps[of cid s t w])
    from "1.IH"(1)[OF lt r[symmetric] n this] show ?thesis
      by (simp add: w1) (metis le_add_same_cancel1 order_trans zero_le_one)
  next
    fix a f rest
    assume ib: "inbox w = (a, f) # rest" and a: "a < clock w + 1" and s: "r1 = Some f"
      and w1: "w1 = w\<lparr>clock := max (clock w) a, inbox := rest\<rparr>"
    show ?thesis
    proof (cases "arbitration_id f = cid")
      case True
      with "1.prems" lt r s have "m = f" "w' = w1"
        by (simp_all add: wait_loop.simps[of cid s t w])
      with True ib a w1 lt show ?thesis
        by (intro exI[of _ "[]"] exI[of _ a]) auto
    next
      case False
      with "1.prems" lt r s have "wait_loop cid s t w1 = (Some m, w')"
        by (simp add: wait_loop.simps[of cid s t w])
      from "1.IH"(2)[OF lt r[symmetric] s False this] obtain pre b where
        "inbox w1 = pre @ (b, m) # inbox w'" "\<forall>x\<in>set pre. arbitration_id (snd x) \<noteq> cid"
        "arbitration_id m = cid" "b < s + t + 1" "b \<le> clock w'" "sent w' = sent w1" "clock w1 \<le> clock w'"
        by blast
      with False ib w1 show ?thesis
        by (intro exI[of _ "(a, f) # pre"] exI[of _ b]) simp
    qed
  qed
qed

lemma wait_loop_None:
  assumes "wait_loop cid s t w = (None, w')"
  shows "\<exists>pre. inbox w = pre @ inbox w' \<and>
           (\<forall>x\<in>set pre. arbitration_id (snd x) \<noteq> cid) \<and>
           s + t \<le> clock w' \<and> sent w' = sent w \<and> clock w \<le> clock w'"
  using assms
proof (induction cid s t w rule: wait_loop.induct)
  case (1 cid s t w)
  show ?case
  proof (cases "clock w - s < t")
    case False
    with "1.prems" have "w' = w" by (simp add: wait_loop.simps[of cid s t w])
    with False show ?thesis by simp
  next
    case lt: True
    obtain r1 w1 where r: "recv 1 w = (r1, w1)" by fastforce
    from recv_cases[OF r] show ?thesis
    proof (elim disjE conjE exE)
      assume n: "r1 = None" and w1: "w1 = w\<lparr>clock := clock w + 1\<rparr>"
      from "1.prems" lt r n have "wait_loop cid s t w1 = (None, w')"
        by (simp add: wait_loop.simps[of cid s t w])
      from "1.IH"(1)[OF lt r[symmetric] n this] show ?thesis
        by (simp add: w1) (metis le_add_same_cancel1 order_trans zero_le_one)
    next
      fix a f rest
      assume ib: "inbox w = (a, f) # rest" and a: "a < clock w + 1" and s: "r1 = Some f"
        and w1: "w1 = w\<lparr>clock := max (clock w) a, inbox := rest\<rparr>"
      from "1.prems" lt r s have ne: "arbitration_id f \<noteq> cid"
        by (auto simp add: wait_loop.simps[of cid s t w] split: if_splits)
      with "1.prems" lt r s have "wait_loop cid s t w1 = (None, w')"
        by (simp add: wait_loop.simps[of cid s t w])
      from "1.IH"(2)[OF lt r[symmetric] s ne this] obtain pre where
        "inbox w1 = pre @ inbox w'" "\<forall>x\<in>set pre. arbitration_id (snd x) \<noteq> cid"
        "s + t \<le> clock w'" "sent w' = sent w1" "clock w1 \<le> clock w'"
        by blast
      with ne ib w1 show ?thesis
        by (intro exI[of _ "(a, f) # pre"]) simp
    qed
  qed
qed


definition lift_prog :: "error + 'a \<Rightarrow> 'a prog" where
  "lift_prog r w = (r, w)"

section \<open>Command primitives\<close>

text \<open>
  \<^verbatim>\<open>get_heartbeat\<close> returns the pair \<^verbatim>\<open>(axis_state, error)\<close>, or \<^verbatim>\<open>(None, None)\<close>, here
  \<open>None\<close>, when no heartbeat frame was received.
\<close>

definition get_heartbeat :: "int \<Rightarrow> (int \<times> int) option prog" where
  "get_heartbeat node_id w =
     (case wait_for_message node_id 0x001 3 w of
        (Some msg, w') \<Rightarrow>
          bind_prog (lift_prog (byte_at (data msg) 4)) (\<lambda>axis_state.
          bind_prog (lift_prog (byte_at (data msg) 5)) (\<lambda>flags.
          bind_prog (lift_prog (unpack_le 4 (take 4 (data msg)))) (\<lambda>error.
          return_prog (Some (axis_state, error))))) w'
      | (None, w') \<Rightarrow> (Inr None, w'))"

definition get_errors :: "int \<Rightarrow> int \<Rightarrow> int prog" where
  "get_errors node_id error_type =
     bind_prog (send_command node_id 0x003 (Some [error_type, 0, 0, 0, 0, 0, 0, 0])) (\<lambda>_ w.
       case wait_for_message node_id 0x003 3 w of
         (Some msg, w') \<Rightarrow>
           (if error_type = 0 then lift_prog (unpack_le 4 (take 4 (data msg)))
            else if error_type = 1 then lift_prog (unpack_le 8 (take 8 (data msg)))
            else lift_prog (unpack_le 4 (take 4 (data msg)))) w'
       | (None, w') \<Rightarrow> (Inr 0, w'))"

definition get_encoder_estimates :: "int \<Rightarrow> (int \<times> int) option prog" where
  "get_encoder_estimates node_id =
     bind_prog (send_command node_id 0x009 None) (\<lambda>_ w.
       case wait_for_message node_id 0x009 3 w of
         (Some msg, w') \<Rightarrow>
           bind_prog (lift_prog (unpack_le 4 (take 4 (data msg)))) (\<lambda>pos.
           bind_prog (lift_prog (unpack_le 4 (take 4 (drop 4 (data msg))))) (\<lambda>vel.
           return_prog (Some (pos, vel)))) w'
       | (None, w') \<Rightarrow> (Inr None, w'))"

definition save_and_reboot :: "int \<Rightarrow> unit prog" where
  "save_and_reboot node_id =
     bind_prog (send_command node_id 0x01F None) (\<lambda>_.
     bind_prog (\<lambda>w. (Inr (), sleep 3 w)) (\<lambda>_.
     bind_prog (send_command node_id 0x016 None) (\<lambda>_.
     (\<lambda>w. (Inr (), sleep 3 w)))))"

section \<open>Calibration polling\<close>

text \<open>
  The monitoring loop shared by \<^verbatim>\<open>test_motor_calibration\<close> (\<open>deadline = 15\<close>) and
  \<^verbatim>\<open>test_encoder_calibration\<close> (\<open>deadline = 20\<close>): the two loops differ only in the
  deadline and in the state value on which they print a progress line. The result is the
  value of \<^verbatim>\<open>success\<close> when the loop ends.
\<close>

function calibration_loop :: "int \<Rightarrow> rat \<Rightarrow> rat \<Rightarrow> bool prog" where
  "calibration_loop node_id start_time deadline w =
     (if clock w - start_time < deadline then
        (case wait_for_message node_id 0x001 1 w of
           (Some msg, w') \<Rightarrow>
             (case byte_at (data msg) 4 of
                Inl e \<Rightarrow> (Inl e, w')
              | Inr axis_state \<Rightarrow>
                  if axis_state = 1 then (Inr True, w')
                  else calibration_loop node_id start_time deadline w')
         | (None, w') \<Rightarrow> calibration_loop node_id start_time deadline w')
      else (Inr False, w))"
  by pat_completeness auto

termination calibration_loop
proof (relation "measure (\<lambda>(node_id, start_time, deadline, w).
           length (inbox w) + nat \<lceil>start_time + deadline - clock w\<rceil>)", goal_cases)
  case 1
  show ?case by simp
next
  case (2 node_id start_time deadline w x w')
  from 2(2)[symmetric] 2(3)
  have "wait_loop (can_id node_id 1) (clock w) 1 w = (None, w')"
    by (simp add: wait_for_message_def)
  from wait_loop_None[OF this] obtain pre where
    "inbox w = pre @ inbox w'" and c: "clock w + 1 \<le> clock w'"
    by blast
  then have len: "length (inbox w') \<le> length (inbox w)" by simp
  have "0 < \<lceil>start_time + deadline - clock w\<rceil>" using 2(1) by simp
  moreover have "\<lceil>start_time + deadline - clock w'\<rceil> \<le> \<lceil>start_time + deadline - (clock w + 1)\<rceil>"
    using c by (intro ceiling_mono) simp
  moreover have "\<lceil>start_time + deadline - (clock w + 1)\<rceil> = \<lceil>start_time + deadline - clock w\<rceil> - 1"
    by (simp add: algebra_simps flip: ceiling_diff_one)
  ultimately have "nat \<lceil>start_time + deadline - clock w'\<rceil>
      < nat \<lceil>start_time + deadline - clock w\<rceil>"
    by linarith
  with len have "length (inbox w') + nat \<lceil>start_time + deadline - clock w'\<rceil>
      < length (inbox w) + nat \<lceil>start_time + deadline - clock w\<rceil>"
    by linarith
  then show ?case by simp
next
  case (3 node_id start_time deadline w x w' msg axis_state)
  from 3(2)[symmetric] 3(3)
  have "wait_loop (can_id node_id 1) (clock w) 1 w = (Some msg, w')"
    by (simp add: wait_for_message_def)
  from wait_loop_Some[OF this] obtain pre a where
    "inbox w = pre @ (a, msg) # inbox w'" and c: "clock w \<le> clock w'"
    by blast
  then have len: "length (inbox w') < length (inbox w)" by simp
  have "nat \<lceil>start_time + deadline - clock w'\<rceil> \<le> nat \<lceil>start_time + deadline - clock w\<rceil>"
    using c by (intro nat_mono ceiling_mono) simp
  with len have "length (inbox w') + nat \<lceil>start_time + deadline - clock w'\<rceil>
      < length (inbox w) + nat \<lceil>start_time + deadline - clock w\<rceil>"
    by linarith
  then show ?case by simp
qed

declare calibration_loop.simps [simp del]

definition test_motor_calibration :: "int \<Rightarrow> bool prog" where
  "test_motor_calibration node_id =
     bind_prog (send_command node_id 0x007 (Some [4, 0, 0, 0, 0, 0, 0, 0])) (\<lambda>_.
     bind_prog (\<lambda>w. calibration_loop node_id (clock w) 15 w) (\<lambda>success.
     bind_prog (if \<not> success
                then send_command node_id 0x007 (Some [1, 0, 0, 0, 0, 0, 0, 0])
                else return_prog ()) (\<lambda>_.
     return_prog success)))"

definition test_encoder_calibration :: "int \<Rightarrow> bool prog" where
  "test_encoder_calibration node_id =
     bind_prog (send_command node_id 0x007 (Some [7, 0, 0, 0, 0, 0, 0, 0])) (\<lambda>_.
     bind_prog (\<lambda>w. calibration_loop node_id (clock w) 20 w) (\<lambda>success.
     bind_prog (if \<not> success
                then send_command node_id 0x007 (Some [1, 0, 0, 0, 0, 0, 0, 0])
                else return_prog ()) (\<lambda>_.
     return_prog success)))"

section \<open>The full diagnostic\<close>

definition full_diagnostic :: "int \<Rightarrow> bool prog" where
  "full_diagnostic node_id =
     bind_prog (get_heartbeat node_id) (\<lambda>hb.
       case hb of
         None \<Rightarrow> return_prog False
       | Some (state, error) \<Rightarrow>
           bind_prog (get_errors node_id 0) (\<lambda>system_error.
           bind_prog (get_errors node_id 1) (\<lambda>motor_error.
           bind_prog (get_errors node_id 4) (\<lambda>encoder_error.
           bind_prog (get_encoder_estimates node_id) (\<lambda>pos_vel.
           bind_prog (test_motor_calibration node_id) (\<lambda>motor_ok.
           bind_prog (test_encoder_calibration node_id) (\<lambda>encoder_ok.
           bind_prog (save_and_reboot node_id) (\<lambda>_.
           return_prog (system_error = 0 \<and> motor_error = 0 \<and> encoder_error = 0 \<and>
                        motor_ok \<and> encoder_ok)))))))))"

section \<open>Arbitration identifiers\<close>

lemma can_id_split:
  "push_bit 5 (drop_bit 5 i) OR take_bit 5 i = (i::int)"
  by (rule bit_eqI) (auto simp: bit_simps)

lemma can_id_fields:
  assumes "0 \<le> c" "c < 32"
  shows "drop_bit 5 (can_id n c) = n" and "take_bit 5 (can_id n c) = c"
    and "can_id n c = n * 32 + c"
proof -
  have d: "drop_bit 5 c = 0" using assms by (simp add: drop_bit_eq_div)
  have t: "take_bit 5 c = c" using assms by (simp add: take_bit_int_eq_self)
  have p: "drop_bit 5 (push_bit 5 n) = n"
    by (simp add: drop_bit_eq_div push_bit_eq_mult)
  show 1: "drop_bit 5 (can_id n c) = n"
    unfolding can_id_def drop_bit_or d p by simp
  show 2: "take_bit 5 (can_id n c) = c"
    by (simp add: can_id_def take_bit_or t take_bit_push_bit)
  from bits_ident[of 5 "can_id n c"] 1 2 show "can_id n c = n * 32 + c"
    by (simp add: push_bit_eq_mult)
qed

text \<open>A world with a silent bus, for concrete runs.\<close>

definition quiet :: world where
  "quiet = \<lparr>clock = 0, inbox = [], sent = []\<rparr>"

text \<open>
  Claim C7. The frame that \<^verbatim>\<open>send_command\<close> builds for a node and a command carries the
  arbitration id \<open>(node << 5) | cmd\<close>. For \<open>node < 2^6\<close> and \<open>cmd < 2^5\<close> (both
  non-negative) the id lies below \<open>2^11\<close> and gives the pair back (the node is the id
  shifted right by five bits, the command its low five bits); conversely every id below
  \<open>2^11\<close> is the id of the pair read off it in this way. So pairs and ids are in
  one-to-one correspondence.
\<close>

theorem arbitration_id_round_trip:
  "(fst (send_command n c d w) = Inr () \<longrightarrow>
      arbitration_id (last (sent (snd (send_command n c d w)))) = push_bit 5 n OR c) \<and>
   (0 \<le> n \<and> n < 2 ^ 6 \<and> 0 \<le> c \<and> c < 2 ^ 5 \<longrightarrow>
      0 \<le> can_id n c \<and> can_id n c < 2 ^ 11 \<and>
      drop_bit 5 (can_id n c) = n \<and> take_bit 5 (can_id n c) = c) \<and>
   (0 \<le> i \<and> i < 2 ^ 11 \<longrightarrow>
      0 \<le> drop_bit 5 i \<and> drop_bit 5 i < 2 ^ 6 \<and> 0 \<le> take_bit 5 i \<and> take_bit 5 i < 2 ^ 5 \<and>
      can_id (drop_bit 5 i) (take_bit 5 i) = i)"
proof (intro conjI impI)
  assume "fst (send_command n c d w) = Inr ()"
  then show "arbitration_id (last (sent (snd (send_command n c d w)))) = push_bit 5 n OR c"
    by (auto simp: send_command_def bus_send_def can_id_def split: sum.splits)
next
  assume a: "0 \<le> n \<and> n < 2 ^ 6 \<and> 0 \<le> c \<and> c < 2 ^ 5"
  then have c: "0 \<le> c" "c < 32" by simp_all
  from can_id_fields[OF c, of n] a
  show "0 \<le> can_id n c" "can_id n c < 2 ^ 11" "drop_bit 5 (can_id n c) = n"
    "take_bit 5 (can_id n c) = c"
    by simp_all
next
  assume a: "0 \<le> i \<and> i < 2 ^ 11"
  then show "0 \<le> drop_bit 5 i" by simp
  from a show "drop_bit 5 i < 2 ^ 6" unfolding drop_bit_eq_div by simp linarith
  show "0 \<le> take_bit 5 i" by simp
  show "take_bit 5 i < 2 ^ 5" by (rule take_bit_int_less_exp)
  show "can_id (drop_bit 5 i) (take_bit 5 i) = i"
    by (simp only: can_id_def can_id_split)
qed

theorem arbitration_id_round_trip_witness:
  "fst (send_command 1 3 None quiet) = Inr () \<and>
   arbitration_id (last (sent (snd (send_command 1 3 None quiet)))) = 35 \<and>
   can_id 1 3 = 35 \<and> drop_bit 5 (can_id 1 3) = 1 \<and> take_bit 5 (can_id 1 3) = 3 \<and>
   can_id (drop_bit 5 35) (take_bit 5 35) = 35"
  using arbitration_id_round_trip[of 1 3 None quiet 35]
  by (simp add: send_command_def bytearray_def bus_send_def quiet_def list_all_iff)

section \<open>The frames each step sends\<close>

text \<open>
  \<open>cmd_frame node_id cmd_id b\<close> is the frame \<^verbatim>\<open>send_command\<close> builds from an eight-byte
  payload whose first byte is \<open>b\<close> and whose other bytes are zero.
\<close>

definition cmd_frame :: "int \<Rightarrow> int \<Rightarrow> byte \<Rightarrow> message" where
  "cmd_frame node_id cmd_id b =
     \<lparr>arbitration_id = can_id node_id cmd_id, data = [b, 0, 0, 0, 0, 0, 0, 0],
      is_extended_id = False\<rparr>"

lemma bind_prog_Inr:
  assumes "bind_prog m f w = (Inr y, w')"
  obtains x w1 where "m w = (Inr x, w1)" and "f x w1 = (Inr y, w')"
  using assms by (auto simp: bind_prog_def split: prod.splits sum.splits)

lemma send_command_None: 
  "send_command n c None w = (Inr (), w\<lparr>sent := sent w @ [cmd_frame n c 0]\<rparr>)"
  by (simp add: send_command_def bytearray_def bus_send_def cmd_frame_def list_all_iff
      numeral_eq_Suc)

lemma send_command_byte:
  "0 \<le> b \<Longrightarrow> b < 256 \<Longrightarrow>
   send_command n c (Some [b, 0, 0, 0, 0, 0, 0, 0]) w =
     (Inr (), w\<lparr>sent := sent w @ [cmd_frame n c (word_of_int b)]\<rparr>)"
  by (simp add: send_command_def bytearray_def bus_send_def cmd_frame_def)

lemma send_command_bad_byte:
  "\<not> (0 \<le> b \<and> b < 256) \<Longrightarrow>
   send_command n c (Some [b, 0, 0, 0, 0, 0, 0, 0]) w = (Inl ValueError, w)"
  by (simp add: send_command_def bytearray_def)

lemma wait_for_message_sent: "sent (snd (wait_for_message n c t w)) = sent w"
proof (cases "wait_for_message n c t w")
  case (Pair r w')
  then show ?thesis
    by (cases r) (auto simp: wait_for_message_def dest: wait_loop_None wait_loop_Some)
qed

lemma wait_for_message_sent': "wait_for_message n c t w = (r, w') \<Longrightarrow> sent w' = sent w"
  using wait_for_message_sent[of n c t w] by simp

lemma get_heartbeat_sent: "sent (snd (get_heartbeat n w)) = sent w"
  by (auto simp: get_heartbeat_def bind_prog_def lift_prog_def return_prog_def
      dest: wait_for_message_sent' split: prod.splits option.splits sum.splits)

lemma get_heartbeat_timeout:
  "fst (wait_for_message n 1 3 w) = None \<Longrightarrow>
   get_heartbeat n w = (Inr None, snd (wait_for_message n 1 3 w))"
  by (auto simp: get_heartbeat_def split: prod.splits option.splits)

text \<open>The log of sent frames has no influence on what a wait receives.\<close>

lemma recv_sent_upd:
  "recv t (w\<lparr>sent := x\<rparr>) = (fst (recv t w), (snd (recv t w))\<lparr>sent := x\<rparr>)"
  by (simp add: recv_def split: list.splits prod.splits)

lemma wait_loop_sent_upd:
  "wait_loop cid s t (w\<lparr>sent := x\<rparr>) =
     (fst (wait_loop cid s t w), (snd (wait_loop cid s t w))\<lparr>sent := x\<rparr>)"
proof (induction cid s t w rule: wait_loop.induct)
  case (1 cid s t w)
  show ?case
  proof (cases "clock w - s < t")
    case False
    then show ?thesis
      by (simp add: wait_loop.simps[of cid s t w] wait_loop.simps[of cid s t "w\<lparr>sent := x\<rparr>"])
  next
    case lt: True
    obtain r w1 where r: "recv 1 w = (r, w1)" by fastforce
    then have r': "recv 1 (w\<lparr>sent := x\<rparr>) = (r, w1\<lparr>sent := x\<rparr>)"
      by (simp add: recv_sent_upd)
    show ?thesis
    proof (cases r)
      case None
      from "1.IH"(1)[OF lt r[symmetric] None] lt r r' None show ?thesis
        by (simp add: wait_loop.simps[of cid s t w] wait_loop.simps[of cid s t "w\<lparr>sent := x\<rparr>"])
    next
      case (Some msg)
      show ?thesis
      proof (cases "arbitration_id msg = cid")
        case True
        with lt r r' Some show ?thesis
          by (simp add: wait_loop.simps[of cid s t w]
              wait_loop.simps[of cid s t "w\<lparr>sent := x\<rparr>"])
      next
        case False
        from "1.IH"(2)[OF lt r[symmetric] Some False] False lt r r' Some show ?thesis
          by (simp add: wait_loop.simps[of cid s t w]
              wait_loop.simps[of cid s t "w\<lparr>sent := x\<rparr>"])
      qed
    qed
  qed
qed

lemma wait_for_message_sent_upd:
  "wait_for_message n c t (w\<lparr>sent := x\<rparr>) =
     (fst (wait_for_message n c t w), (snd (wait_for_message n c t w))\<lparr>sent := x\<rparr>)"
  by (simp add: wait_for_message_def wait_loop_sent_upd)

text \<open>The little-endian value of a byte string, as a sum.\<close>

lemma le_uint_Cons: "le_uint (b # bs) = uint b + 256 * le_uint bs"
  by (simp add: le_uint_def)

lemma le_uint_sum: "le_uint bs = (\<Sum>i<length bs. uint (bs ! i) * 256 ^ i)"
proof (induction bs)
  case Nil
  show ?case by (simp add: le_uint_def)
next
  case (Cons b bs)
  have "(\<Sum>i<length (b # bs). uint ((b # bs) ! i) * 256 ^ i) =
        uint b + (\<Sum>i<length bs. uint (bs ! i) * 256 ^ Suc i)"
    by (simp add: sum.lessThan_Suc_shift del: sum.lessThan_Suc)
  also have "(\<Sum>i<length bs. uint (bs ! i) * 256 ^ Suc i) =
        256 * (\<Sum>i<length bs. uint (bs ! i) * 256 ^ i)"
    by (simp add: sum_distrib_left mult_ac)
  finally show ?case by (simp add: le_uint_Cons Cons.IH)
qed

lemma le_uint_take:
  "k \<le> length bs \<Longrightarrow> le_uint (take k bs) = (\<Sum>i<k. uint (bs ! i) * 256 ^ i)"
  by (simp add: le_uint_sum)

lemma get_errors_unfold:
  assumes "0 \<le> et" "et < 256"
  shows "get_errors n et w =
     (case fst (wait_for_message n 3 3 w) of
        None \<Rightarrow> Inr 0
      | Some msg \<Rightarrow> if et = 1 then unpack_le 8 (take 8 (data msg))
                    else unpack_le 4 (take 4 (data msg)),
      (snd (wait_for_message n 3 3 w))\<lparr>sent := sent w @ [cmd_frame n 3 (word_of_int et)]\<rparr>)"
  using assms
  by (simp add: get_errors_def bind_prog_def send_command_byte wait_for_message_sent_upd
      lift_prog_def split: option.splits)

lemma get_errors_sent:
  assumes "0 \<le> et" "et < 256"
  shows "sent (snd (get_errors n et w)) = sent w @ [cmd_frame n 3 (word_of_int et)]"
  using assms
  by (auto simp: get_errors_def bind_prog_def send_command_byte lift_prog_def
      dest: wait_for_message_sent' split: prod.splits option.splits)

lemma get_encoder_estimates_sent:
  "sent (snd (get_encoder_estimates n w)) = sent w @ [cmd_frame n 9 0]"
  by (auto simp: get_encoder_estimates_def bind_prog_def send_command_None lift_prog_def
      return_prog_def dest: wait_for_message_sent' split: prod.splits option.splits sum.splits)

lemma save_and_reboot_run:
  "save_and_reboot n w =
     (Inr (), w\<lparr>clock := clock w + 6, sent := sent w @ [cmd_frame n 0x1F 0, cmd_frame n 0x16 0]\<rparr>)"
  by (simp add: save_and_reboot_def bind_prog_def send_command_None sleep_def)

lemma calibration_loop_sent: "sent (snd (calibration_loop n s d w)) = sent w"
proof (induction n s d w rule: calibration_loop.induct)
  case (1 n s d w)
  show ?case
  proof (cases "clock w - s < d")
    case False
    then show ?thesis by (simp add: calibration_loop.simps[of n s d w])
  next
    case lt: True
    obtain r w1 where r: "wait_for_message n 1 1 w = (r, w1)" by fastforce
    then have s1: "sent w1 = sent w" by (rule wait_for_message_sent')
    show ?thesis
    proof (cases r)
      case None
      from "1.IH"(1)[OF lt r[symmetric] None] lt r None s1 show ?thesis
        by (simp add: calibration_loop.simps[of n s d w])
    next
      case (Some msg)
      show ?thesis
      proof (cases "byte_at (data msg) 4")
        case (Inl e)
        with lt r Some s1 show ?thesis by (simp add: calibration_loop.simps[of n s d w])
      next
        case (Inr st)
        show ?thesis
        proof (cases "st = 1")
          case True
          with Inr lt r Some s1 show ?thesis by (simp add: calibration_loop.simps[of n s d w])
        next
          case False
          from "1.IH"(2)[OF lt r[symmetric] Some Inr False] False Inr lt r Some s1
          show ?thesis by (simp add: calibration_loop.simps[of n s d w])
        qed
      qed
    qed
  qed
qed

lemma calibration_loop_sent': "calibration_loop n s d w = (r, w') \<Longrightarrow> sent w' = sent w"
  using calibration_loop_sent[of n s d w] by simp

lemma test_motor_calibration_sent:
  "sent (snd (test_motor_calibration n w)) =
     sent w @ [cmd_frame n 7 4] @
       (if fst (test_motor_calibration n w) = Inr False then [cmd_frame n 7 1] else [])"
  by (auto simp: test_motor_calibration_def bind_prog_def send_command_byte return_prog_def
      dest: calibration_loop_sent' split: prod.splits sum.splits)

lemma test_encoder_calibration_sent:
  "sent (snd (test_encoder_calibration n w)) =
     sent w @ [cmd_frame n 7 7] @
       (if fst (test_encoder_calibration n w) = Inr False then [cmd_frame n 7 1] else [])"
  by (auto simp: test_encoder_calibration_def bind_prog_def send_command_byte return_prog_def
      dest: calibration_loop_sent' split: prod.splits sum.splits)

text \<open>Concrete worlds: one frame arriving after half a second, and its wait.\<close>

definition reply_world :: "int \<Rightarrow> byte list \<Rightarrow> world" where
  "reply_world aid bs =
     \<lparr>clock = 0,
      inbox = [(1 / 2, \<lparr>arbitration_id = aid, data = bs, is_extended_id = False\<rparr>)],
      sent = []\<rparr>"

lemma reply_world_wait:
  "wait_for_message n c 3 (reply_world (can_id n c) bs) =
     (Some \<lparr>arbitration_id = can_id n c, data = bs, is_extended_id = False\<rparr>,
      \<lparr>clock = 1 / 2, inbox = [], sent = []\<rparr>)"
  by (simp add: wait_for_message_def reply_world_def wait_loop.simps recv_def)

lemma quiet_wait:
  "wait_for_message n c 3 quiet = (None, \<lparr>clock = 3, inbox = [], sent = []\<rparr>)"
  by (simp add: wait_for_message_def quiet_def wait_loop.simps recv_def)

section \<open>The heartbeat query\<close>

text \<open>
  A wait never runs on for a full second past its deadline, and \<^verbatim>\<open>get_heartbeat\<close>
  leaves the world exactly as its wait left it.
\<close>

lemma wait_loop_clock_upper:
  assumes "clock w < s + t + 1" and "wait_loop cid s t w = (r, w')"
  shows "clock w' < s + t + 1"
  using assms
proof (induction cid s t w rule: wait_loop.induct)
  case (1 cid s t w)
  show ?case
  proof (cases "clock w - s < t")
    case False
    with "1.prems" show ?thesis by (simp add: wait_loop.simps[of cid s t w])
  next
    case lt: True
    obtain r1 w1 where r1: "recv 1 w = (r1, w1)" by fastforce
    from recv_cases[OF r1] show ?thesis
    proof (elim disjE conjE exE)
      assume n: "r1 = None" and w1: "w1 = w\<lparr>clock := clock w + 1\<rparr>"
      from lt w1 have c1: "clock w1 < s + t + 1" by simp
      from "1.prems"(2) lt r1 n have "wait_loop cid s t w1 = (r, w')"
        by (simp add: wait_loop.simps[of cid s t w])
      from "1.IH"(1)[OF lt r1[symmetric] n c1 this] show ?thesis .
    next
      fix a f rest
      assume a: "a < clock w + 1" and s: "r1 = Some f"
        and w1: "w1 = w\<lparr>clock := max (clock w) a, inbox := rest\<rparr>"
      from lt a w1 have c1: "clock w1 < s + t + 1" by (auto simp: max_def)
      show ?thesis
      proof (cases "arbitration_id f = cid")
        case True
        with "1.prems"(2) lt r1 s have "w' = w1"
          by (simp add: wait_loop.simps[of cid s t w])
        with c1 show ?thesis by simp
      next
        case False
        with "1.prems"(2) lt r1 s have "wait_loop cid s t w1 = (r, w')"
          by (simp add: wait_loop.simps[of cid s t w])
        from "1.IH"(2)[OF lt r1[symmetric] s False c1 this] show ?thesis .
      qed
    qed
  qed
qed

lemma get_heartbeat_world: "snd (get_heartbeat n w) = snd (wait_for_message n 1 3 w)"
  by (auto simp: get_heartbeat_def bind_prog_def lift_prog_def return_prog_def
      split: prod.splits option.splits sum.splits)

text \<open>
  Claim C9. \<^verbatim>\<open>get_heartbeat\<close> sends nothing: the log of sent frames after it is the log
  before it, whatever arrives. All it does to the bus and the clock is to wait for the
  heartbeat frame (command \<open>0x001\<close>) with a timeout of three seconds: the world it leaves
  is the world that wait leaves. When the wait ends without a frame it returns
  \<^verbatim>\<open>(None, None)\<close>, its no-response value, at least three and less than four seconds
  after the call. That is the case whenever no heartbeat frame arrives earlier than four
  seconds after the call.
\<close>

theorem get_heartbeat_only_waits:
  "sent (snd (get_heartbeat n w)) = sent w \<and>
   snd (get_heartbeat n w) = snd (wait_for_message n 0x001 3 w) \<and>
   (fst (wait_for_message n 0x001 3 w) = None \<longrightarrow>
      fst (get_heartbeat n w) = Inr None \<and>
      clock w + 3 \<le> clock (snd (get_heartbeat n w)) \<and>
      clock (snd (get_heartbeat n w)) < clock w + 4) \<and>
   ((\<forall>x\<in>set (inbox w). arbitration_id (snd x) = can_id n 0x001 \<longrightarrow> clock w + 4 \<le> fst x) \<longrightarrow>
      fst (get_heartbeat n w) = Inr None \<and>
      clock w + 3 \<le> clock (snd (get_heartbeat n w)))"
proof (intro conjI impI)
  show "sent (snd (get_heartbeat n w)) = sent w" by (rule get_heartbeat_sent)
  show eq: "snd (get_heartbeat n w) = snd (wait_for_message n 0x001 3 w)"
    by (rule get_heartbeat_world)
  obtain r w' where run: "wait_loop (can_id n 1) (clock w) 3 w = (r, w')" by fastforce
  then have wm: "wait_for_message n 1 3 w = (r, w')" by (simp add: wait_for_message_def)
  have up: "clock w' < clock w + 4"
    using wait_loop_clock_upper[OF _ run] by simp
  {
    assume t: "fst (wait_for_message n 0x001 3 w) = None"
    then show "fst (get_heartbeat n w) = Inr None" by (simp add: get_heartbeat_timeout)
    from t wm have "r = None" by simp
    from wait_loop_None[OF run[unfolded this]] wm
    show "clock w + 3 \<le> clock (snd (get_heartbeat n w))" by (auto simp: eq)
    from up wm show "clock (snd (get_heartbeat n w)) < clock w + 4" by (simp add: eq)
  }
  {
    assume h: "\<forall>x\<in>set (inbox w). arbitration_id (snd x) = can_id n 0x001 \<longrightarrow>
        clock w + 4 \<le> fst x"
    have r: "r = None"
    proof (cases r)
      case (Some m)
      from wait_loop_Some[OF run[unfolded Some]] obtain pre a where
        "inbox w = pre @ (a, m) # inbox w'" "arbitration_id m = can_id n 1"
        "a < clock w + 3 + 1"
        by blast
      with h show ?thesis by auto
    qed simp
    with wm show "fst (get_heartbeat n w) = Inr None" by (simp add: get_heartbeat_timeout)
    from wait_loop_None[OF run[unfolded r]] wm
    show "clock w + 3 \<le> clock (snd (get_heartbeat n w))" by (auto simp: eq)
  }
qed

theorem get_heartbeat_only_waits_witness:
  "fst (wait_for_message 1 0x001 3 quiet) = None \<and>
   get_heartbeat 1 quiet = (Inr None, \<lparr>clock = 3, inbox = [], sent = []\<rparr>) \<and>
   fst (get_heartbeat 1 (reply_world (can_id 1 9) [])) = Inr None \<and>
   sent (snd (get_heartbeat 1 (reply_world (can_id 1 9) []))) = [] \<and>
   3 \<le> clock (snd (get_heartbeat 1 (reply_world (can_id 1 9) []))) \<and>
   clock (snd (get_heartbeat 1 (reply_world (can_id 1 9) []))) < 4"
proof -
  have q: "wait_for_message 1 0x001 3 quiet = (None, \<lparr>clock = 3, inbox = [], sent = []\<rparr>)"
    by (rule quiet_wait)
  have c: "fst (wait_for_message 1 0x001 3 (reply_world (can_id 1 9) [])) = None"
    by (simp add: wait_for_message_def reply_world_def wait_loop.simps recv_def can_id_def)
  have z: "clock (reply_world (can_id 1 9) []) = 0" "sent (reply_world (can_id 1 9) []) = []"
    by (simp_all add: reply_world_def)
  from get_heartbeat_only_waits[of 1 quiet] q
  have 1: "get_heartbeat 1 quiet = (Inr None, \<lparr>clock = 3, inbox = [], sent = []\<rparr>)"
    by (simp add: prod_eq_iff)
  from get_heartbeat_only_waits[of 1 "reply_world (can_id 1 9) []"] c
  have a: "fst (get_heartbeat 1 (reply_world (can_id 1 9) [])) = Inr None \<and>
      clock (reply_world (can_id 1 9) []) + 3
        \<le> clock (snd (get_heartbeat 1 (reply_world (can_id 1 9) []))) \<and>
      clock (snd (get_heartbeat 1 (reply_world (can_id 1 9) [])))
        < clock (reply_world (can_id 1 9) []) + 4"
    and b: "sent (snd (get_heartbeat 1 (reply_world (can_id 1 9) []))) =
      sent (reply_world (can_id 1 9) [])"
    by blast+
  from a b have 2: "fst (get_heartbeat 1 (reply_world (can_id 1 9) [])) = Inr None"
    "sent (snd (get_heartbeat 1 (reply_world (can_id 1 9) []))) = []"
    "3 \<le> clock (snd (get_heartbeat 1 (reply_world (can_id 1 9) [])))"
    "clock (snd (get_heartbeat 1 (reply_world (can_id 1 9) []))) < 4"
    by (simp_all only: z) simp_all
  from q 1 2 show ?thesis by simp
qed

section \<open>What a full diagnostic run does\<close>

text \<open>
  Claim C10. When the first heartbeat wait of \<^verbatim>\<open>full_diagnostic\<close> times out, the run
  returns \<^verbatim>\<open>False\<close> at once: the world it leaves is the world at the end of that wait,
  and no frame at all has been sent.
\<close>

theorem full_diagnostic_no_heartbeat:
  assumes "fst (wait_for_message n 0x001 3 w) = None"
  shows "fst (full_diagnostic n w) = Inr False \<and>
         snd (full_diagnostic n w) = snd (wait_for_message n 0x001 3 w) \<and>
         sent (snd (full_diagnostic n w)) = sent w"
  using assms
  by (simp add: full_diagnostic_def bind_prog_def get_heartbeat_timeout return_prog_def
      wait_for_message_sent)

theorem full_diagnostic_no_heartbeat_witness:
  "fst (wait_for_message 1 0x001 3 quiet) = None \<and> fst (full_diagnostic 1 quiet) = Inr False \<and>
   sent (snd (full_diagnostic 1 quiet)) = [] \<and> clock (snd (full_diagnostic 1 quiet)) = 3"
  using full_diagnostic_no_heartbeat[of 1 quiet]
  by (simp add: wait_for_message_def quiet_def recv_def wait_loop.simps)

text \<open>
  Claim C1 says that every step runs even when the heartbeat wait timed out. The code
  returns before the second step in that case: on a silent bus the run ends after the three
  seconds of the heartbeat wait with nothing sent, whereas the next step,
  \<^verbatim>\<open>get_errors(0)\<close>, would have sent a request.
\<close>

theorem full_diagnostic_returns_early_counterexample:
  "fst (wait_for_message 1 0x001 3 quiet) = None \<and>
   full_diagnostic 1 quiet = (Inr False, \<lparr>clock = 3, inbox = [], sent = []\<rparr>) \<and>
   sent (snd (get_errors 1 0 \<lparr>clock = 3, inbox = [], sent = []\<rparr>)) = [cmd_frame 1 0x003 0]"
  by (simp add: quiet_wait full_diagnostic_def bind_prog_def get_heartbeat_def return_prog_def
      get_errors_sent)

text \<open>A world in which one heartbeat (axis state 8) arrives and nothing else.\<close>

definition lone_heartbeat :: world where
  "lone_heartbeat =
     \<lparr>clock = 0,
      inbox = [(1 / 2, \<lparr>arbitration_id = 33, data = [0, 0, 0, 0, 8, 0, 0, 0],
                        is_extended_id = False\<rparr>)],
      sent = []\<rparr>"

lemma lone_heartbeat_run:
  "full_diagnostic 1 lone_heartbeat =
     (Inr False,
      \<lparr>clock = 107 / 2, inbox = [],
       sent = [cmd_frame 1 3 0, cmd_frame 1 3 1, cmd_frame 1 3 4, cmd_frame 1 9 0,
               cmd_frame 1 7 4, cmd_frame 1 7 1, cmd_frame 1 7 7, cmd_frame 1 7 1,
               cmd_frame 1 0x1F 0, cmd_frame 1 0x16 0]\<rparr>)"
  by code_simp

text \<open>
  Claim C1, amended. When the heartbeat is received and the run ends without an exception,
  every later step has run, in the fixed order, whatever the earlier steps reported: the
  frames sent are the three error requests (types 0, 1, 4), the encoder-estimates request,
  the start of the motor calibration (followed by the corrective idle command when it
  failed), the start of the encoder calibration (likewise), save-configuration and reboot.
  The result can be \<^verbatim>\<open>True\<close> only when neither corrective command was sent.
\<close>

theorem full_diagnostic_runs_all_after_heartbeat:
  assumes hb: "fst (get_heartbeat n w) = Inr (Some hb)"
    and run: "full_diagnostic n w = (Inr ok, w')"
  shows "\<exists>ms es. sent w' = sent w @
            [cmd_frame n 3 0, cmd_frame n 3 1, cmd_frame n 3 4, cmd_frame n 9 0, cmd_frame n 7 4]
            @ ms @ [cmd_frame n 7 7] @ es @ [cmd_frame n 0x1F 0, cmd_frame n 0x16 0] \<and>
          (ms = [] \<or> ms = [cmd_frame n 7 1]) \<and> (es = [] \<or> es = [cmd_frame n 7 1]) \<and>
          (ok \<longrightarrow> ms = [] \<and> es = [])"
proof -
  obtain st er where hb': "hb = (st, er)" by (cases hb)
  from run obtain x w1 where h1: "get_heartbeat n w = (Inr x, w1)"
    and r1: "(case x of None \<Rightarrow> return_prog False
        | Some (state, error) \<Rightarrow>
           bind_prog (get_errors n 0) (\<lambda>system_error.
           bind_prog (get_errors n 1) (\<lambda>motor_error.
           bind_prog (get_errors n 4) (\<lambda>encoder_error.
           bind_prog (get_encoder_estimates n) (\<lambda>pos_vel.
           bind_prog (test_motor_calibration n) (\<lambda>motor_ok.
           bind_prog (test_encoder_calibration n) (\<lambda>encoder_ok.
           bind_prog (save_and_reboot n) (\<lambda>_.
           return_prog (system_error = 0 \<and> motor_error = 0 \<and> encoder_error = 0 \<and>
                        motor_ok \<and> encoder_ok))))))))) w1 = (Inr ok, w')"
    unfolding full_diagnostic_def by (rule bind_prog_Inr)
  from h1 hb hb' have x: "x = Some (st, er)" by simp
  from h1 have s1: "sent w1 = sent w" using get_heartbeat_sent[of n w] by simp
  from r1 x obtain se w2 where e0: "get_errors n 0 w1 = (Inr se, w2)"
    and r2: "bind_prog (get_errors n 1) (\<lambda>motor_error.
           bind_prog (get_errors n 4) (\<lambda>encoder_error.
           bind_prog (get_encoder_estimates n) (\<lambda>pos_vel.
           bind_prog (test_motor_calibration n) (\<lambda>motor_ok.
           bind_prog (test_encoder_calibration n) (\<lambda>encoder_ok.
           bind_prog (save_and_reboot n) (\<lambda>_.
           return_prog (se = 0 \<and> motor_error = 0 \<and> encoder_error = 0 \<and>
                        motor_ok \<and> encoder_ok))))))) w2 = (Inr ok, w')"
    by (auto elim: bind_prog_Inr)
  from e0 have s2: "sent w2 = sent w1 @ [cmd_frame n 3 0]"
    using get_errors_sent[of 0 n w1] by simp
  from r2 obtain me w3 where e1: "get_errors n 1 w2 = (Inr me, w3)"
    and r3: "bind_prog (get_errors n 4) (\<lambda>encoder_error.
           bind_prog (get_encoder_estimates n) (\<lambda>pos_vel.
           bind_prog (test_motor_calibration n) (\<lambda>motor_ok.
           bind_prog (test_encoder_calibration n) (\<lambda>encoder_ok.
           bind_prog (save_and_reboot n) (\<lambda>_.
           return_prog (se = 0 \<and> me = 0 \<and> encoder_error = 0 \<and>
                        motor_ok \<and> encoder_ok)))))) w3 = (Inr ok, w')"
    by (rule bind_prog_Inr)
  from e1 have s3: "sent w3 = sent w2 @ [cmd_frame n 3 1]"
    using get_errors_sent[of 1 n w2] by simp
  from r3 obtain ee w4 where e4: "get_errors n 4 w3 = (Inr ee, w4)"
    and r4: "bind_prog (get_encoder_estimates n) (\<lambda>pos_vel.
           bind_prog (test_motor_calibration n) (\<lambda>motor_ok.
           bind_prog (test_encoder_calibration n) (\<lambda>encoder_ok.
           bind_prog (save_and_reboot n) (\<lambda>_.
           return_prog (se = 0 \<and> me = 0 \<and> ee = 0 \<and> motor_ok \<and> encoder_ok))))) w4
         = (Inr ok, w')"
    by (rule bind_prog_Inr)
  from e4 have s4: "sent w4 = sent w3 @ [cmd_frame n 3 4]"
    using get_errors_sent[of 4 n w3] by simp
  from r4 obtain pv w5 where g: "get_encoder_estimates n w4 = (Inr pv, w5)"
    and r5: "bind_prog (test_motor_calibration n) (\<lambda>motor_ok.
           bind_prog (test_encoder_calibration n) (\<lambda>encoder_ok.
           bind_prog (save_and_reboot n) (\<lambda>_.
           return_prog (se = 0 \<and> me = 0 \<and> ee = 0 \<and> motor_ok \<and> encoder_ok)))) w5
         = (Inr ok, w')"
    by (rule bind_prog_Inr)
  from g have s5: "sent w5 = sent w4 @ [cmd_frame n 9 0]"
    using get_encoder_estimates_sent[of n w4] by simp
  from r5 obtain mo w6 where m: "test_motor_calibration n w5 = (Inr mo, w6)"
    and r6: "bind_prog (test_encoder_calibration n) (\<lambda>encoder_ok.
           bind_prog (save_and_reboot n) (\<lambda>_.
           return_prog (se = 0 \<and> me = 0 \<and> ee = 0 \<and> mo \<and> encoder_ok))) w6
         = (Inr ok, w')"
    by (rule bind_prog_Inr)
  define ms where "ms = (if mo then [] else [cmd_frame n 7 1])"
  from m have s6: "sent w6 = sent w5 @ [cmd_frame n 7 4] @ ms"
    using test_motor_calibration_sent[of n w5] by (simp add: ms_def)
  from r6 obtain eo w7 where e: "test_encoder_calibration n w6 = (Inr eo, w7)"
    and r7: "bind_prog (save_and_reboot n) (\<lambda>_.
           return_prog (se = 0 \<and> me = 0 \<and> ee = 0 \<and> mo \<and> eo)) w7 = (Inr ok, w')"
    by (rule bind_prog_Inr)
  define es where "es = (if eo then [] else [cmd_frame n 7 1])"
  from e have s7: "sent w7 = sent w6 @ [cmd_frame n 7 7] @ es"
    using test_encoder_calibration_sent[of n w6] by (simp add: es_def)
  from r7 have s8: "sent w' = sent w7 @ [cmd_frame n 0x1F 0, cmd_frame n 0x16 0]"
    and ok: "ok = (se = 0 \<and> me = 0 \<and> ee = 0 \<and> mo \<and> eo)"
    by (auto simp: bind_prog_def save_and_reboot_run return_prog_def)
  have "sent w' = sent w @
            [cmd_frame n 3 0, cmd_frame n 3 1, cmd_frame n 3 4, cmd_frame n 9 0, cmd_frame n 7 4]
            @ ms @ [cmd_frame n 7 7] @ es @ [cmd_frame n 0x1F 0, cmd_frame n 0x16 0]"
    by (simp add: s1 s2 s3 s4 s5 s6 s7 s8)
  moreover have "ms = [] \<or> ms = [cmd_frame n 7 1]" "es = [] \<or> es = [cmd_frame n 7 1]"
    by (simp_all add: ms_def es_def)
  moreover have "ok \<longrightarrow> ms = [] \<and> es = []" by (simp add: ok ms_def es_def)
  ultimately show ?thesis by blast
qed

theorem full_diagnostic_runs_all_after_heartbeat_witness:
  "fst (get_heartbeat 1 lone_heartbeat) = Inr (Some (8, 0)) \<and>
   fst (full_diagnostic 1 lone_heartbeat) = Inr False \<and>
   sent (snd (full_diagnostic 1 lone_heartbeat)) =
     [cmd_frame 1 3 0, cmd_frame 1 3 1, cmd_frame 1 3 4, cmd_frame 1 9 0,
      cmd_frame 1 7 4, cmd_frame 1 7 1, cmd_frame 1 7 7, cmd_frame 1 7 1,
      cmd_frame 1 0x1F 0, cmd_frame 1 0x16 0]"
proof -
  have hb: "fst (get_heartbeat 1 lone_heartbeat) = Inr (Some (8, 0))"
    by code_simp
  from full_diagnostic_runs_all_after_heartbeat[OF hb lone_heartbeat_run] hb
  show ?thesis by (simp add: lone_heartbeat_run)
qed

section \<open>The error query\<close>

text \<open>
  Claim C6. For an error type that fits a byte, \<^verbatim>\<open>get_errors\<close> sends exactly one frame:
  command \<open>0x003\<close>, the error type as first payload byte, seven zero bytes after it. When
  the wait yields a frame, the result is the little-endian value of its first eight
  bytes for error type 1 and of its first four bytes for every other type. The
  instances: for type 1 the payload \<open>[1,0,0,0,0,0,0,0]\<close> gives 1 and eight zero bytes give 0;
  for type 4 only the first four bytes count.
\<close>

theorem get_errors_request_and_decode:
  assumes "0 \<le> et" "et < 256"
  shows "sent (snd (get_errors n et w)) =
           sent w @ [\<lparr>arbitration_id = can_id n 0x003,
                       data = [word_of_int et, 0, 0, 0, 0, 0, 0, 0],
                       is_extended_id = False\<rparr>] \<and>
         (\<forall>msg. fst (wait_for_message n 0x003 3 w) = Some msg \<longrightarrow>
            (et = 1 \<and> 8 \<le> length (data msg) \<longrightarrow>
               fst (get_errors n et w) = Inr (\<Sum>i<8. uint (data msg ! i) * 256 ^ i)) \<and>
            (et \<noteq> 1 \<and> 4 \<le> length (data msg) \<longrightarrow>
               fst (get_errors n et w) = Inr (\<Sum>i<4. uint (data msg ! i) * 256 ^ i)))"
  using assms
  by (auto simp: get_errors_unfold unpack_le_def le_uint_take cmd_frame_def
           simp del: sum.lessThan_Suc)

theorem get_errors_request_and_decode_witness:
  "fst (get_errors 1 1 (reply_world (can_id 1 3) [1, 0, 0, 0, 0, 0, 0, 0])) = Inr 1 \<and>
   fst (get_errors 1 1 (reply_world (can_id 1 3) [0, 0, 0, 0, 0, 0, 0, 0])) = Inr 0 \<and>
   fst (get_errors 1 4 (reply_world (can_id 1 3) [2, 1, 0, 0, 9, 9, 9, 9])) = Inr 258 \<and>
   sent (snd (get_errors 1 4 (reply_world (can_id 1 3) [2, 1, 0, 0, 9, 9, 9, 9]))) =
     [\<lparr>arbitration_id = 35, data = [4, 0, 0, 0, 0, 0, 0, 0], is_extended_id = False\<rparr>]"
  using get_errors_request_and_decode[of 1 1 "reply_world (can_id 1 3) [1, 0, 0, 0, 0, 0, 0, 0]"]
    get_errors_request_and_decode[of 1 1 "reply_world (can_id 1 3) [0, 0, 0, 0, 0, 0, 0, 0]"]
    get_errors_request_and_decode[of 4 1 "reply_world (can_id 1 3) [2, 1, 0, 0, 9, 9, 9, 9]"]
  by (simp add: reply_world_wait lessThan_Suc numeral_eq_Suc)
    (simp add: reply_world_def can_id_def)

text \<open>
  Claim C5. A matched frame whose payload is too short makes the decoding fail with an
  exception: \<^verbatim>\<open>IndexError\<close> in \<^verbatim>\<open>get_heartbeat\<close> for fewer than six bytes,
  \<^verbatim>\<open>struct.error\<close> in \<^verbatim>\<open>get_errors\<close> for fewer than eight bytes (type 1) or fewer than
  four bytes (other types). These are the program's form of a malformed-payload failure;
  a timeout is no exception but a normal return (\<^verbatim>\<open>(None, None)\<close>, resp. \<open>0\<close>), so the
  caller can tell the two apart.
\<close>

theorem malformed_payload_raises:
  "(\<forall>msg. fst (wait_for_message n 0x001 3 w) = Some msg \<and> length (data msg) < 6 \<longrightarrow>
      fst (get_heartbeat n w) = Inl IndexError) \<and>
   (\<forall>msg. fst (wait_for_message n 0x003 3 w) = Some msg \<and> length (data msg) < 8 \<longrightarrow>
      fst (get_errors n 1 w) = Inl StructError) \<and>
   (\<forall>msg. fst (wait_for_message n 0x003 3 w) = Some msg \<and> length (data msg) < 4 \<and>
      0 \<le> et \<and> et < 256 \<and> et \<noteq> 1 \<longrightarrow>
      fst (get_errors n et w) = Inl StructError) \<and>
   (fst (wait_for_message n 0x001 3 w) = None \<longrightarrow> fst (get_heartbeat n w) = Inr None) \<and>
   (fst (wait_for_message n 0x003 3 w) = None \<and> 0 \<le> et \<and> et < 256 \<longrightarrow>
      fst (get_errors n et w) = Inr 0)"
proof (intro conjI allI impI)
  fix msg
  assume a: "fst (wait_for_message n 0x001 3 w) = Some msg \<and> length (data msg) < 6"
  then obtain w' where "wait_for_message n 1 3 w = (Some msg, w')"
    by (cases "wait_for_message n 1 3 w") simp
  with a show "fst (get_heartbeat n w) = Inl IndexError"
    by (simp add: get_heartbeat_def bind_prog_def lift_prog_def byte_at_def)
next
  fix msg
  assume "fst (wait_for_message n 0x003 3 w) = Some msg \<and> length (data msg) < 8"
  then show "fst (get_errors n 1 w) = Inl StructError"
    by (simp add: get_errors_unfold unpack_le_def)
next
  fix msg
  assume "fst (wait_for_message n 0x003 3 w) = Some msg \<and> length (data msg) < 4 \<and>
      0 \<le> et \<and> et < 256 \<and> et \<noteq> 1"
  then show "fst (get_errors n et w) = Inl StructError"
    by (simp add: get_errors_unfold unpack_le_def)
next
  assume "fst (wait_for_message n 0x001 3 w) = None"
  then show "fst (get_heartbeat n w) = Inr None"
    by (simp add: get_heartbeat_timeout)
next
  assume "fst (wait_for_message n 0x003 3 w) = None \<and> 0 \<le> et \<and> et < 256"
  then show "fst (get_errors n et w) = Inr 0"
    by (simp add: get_errors_unfold)
qed

theorem malformed_payload_raises_witness:
  "fst (get_heartbeat 1 (reply_world (can_id 1 1) [0, 0, 0, 0, 1])) = Inl IndexError \<and>
   fst (get_errors 1 1 (reply_world (can_id 1 3) [1, 0, 0, 0])) = Inl StructError \<and>
   fst (get_errors 1 0 (reply_world (can_id 1 3) [1, 0, 0])) = Inl StructError \<and>
   fst (get_heartbeat 1 quiet) = Inr None \<and>
   fst (get_errors 1 0 quiet) = Inr 0"
  using malformed_payload_raises[of 1 "reply_world (can_id 1 1) [0, 0, 0, 0, 1]" 0]
    malformed_payload_raises[of 1 "reply_world (can_id 1 3) [1, 0, 0, 0]" 0]
    malformed_payload_raises[of 1 "reply_world (can_id 1 3) [1, 0, 0]" 0]
    malformed_payload_raises[of 1 quiet 0]
  by (simp add: reply_world_wait quiet_wait)

text \<open>
  Claim C2 says that on a timeout \<^verbatim>\<open>get_errors\<close> returns zero and also tells the caller,
  apart from that value, that no response came. The code returns the bare integer 0 and
  nothing else: a run with no reply and a run with a reply carrying error code 0 give the
  caller the same value.
\<close>

theorem get_errors_no_flag_counterexample:
  "fst (wait_for_message 1 0x003 3 quiet) = None \<and>
   fst (wait_for_message 1 0x003 3 (reply_world (can_id 1 3) [0, 0, 0, 0, 0, 0, 0, 0])) =
     Some \<lparr>arbitration_id = can_id 1 3, data = [0, 0, 0, 0, 0, 0, 0, 0],
           is_extended_id = False\<rparr> \<and>
   fst (get_errors 1 0 quiet) =
     fst (get_errors 1 0 (reply_world (can_id 1 3) [0, 0, 0, 0, 0, 0, 0, 0]))"
  by (simp add: get_errors_unfold quiet_wait reply_world_wait unpack_le_def le_uint_def)

text \<open>
  Claim C2, amended. For every error type that fits a byte, when the wait for the reply
  times out \<^verbatim>\<open>get_errors\<close> returns the integer 0, and that is all the caller gets: the
  world differs from the one the wait left only by the request in the log of sent frames.
\<close>

theorem get_errors_timeout_is_zero:
  assumes "0 \<le> et" "et < 256" and "fst (wait_for_message n 0x003 3 w) = None"
  shows "get_errors n et w =
     (Inr 0, (snd (wait_for_message n 0x003 3 w))
               \<lparr>sent := sent w @ [cmd_frame n 0x003 (word_of_int et)]\<rparr>)"
  using assms by (simp add: get_errors_unfold)

theorem get_errors_timeout_is_zero_witness:
  "fst (wait_for_message 1 0x003 3 quiet) = None \<and>
   get_errors 1 0 quiet = (Inr 0, \<lparr>clock = 3, inbox = [], sent = [cmd_frame 1 0x003 0]\<rparr>)"
  using get_errors_timeout_is_zero[of 0 1 quiet]
  by (simp add: quiet_wait) (simp add: quiet_def)

section \<open>The wire format of sent frames\<close>

text \<open>
  The command catalogue: heartbeat, get-errors, set-axis-state, get-encoder-estimates,
  save-configuration, reboot. A wire frame of a node has a non-extended identifier
  \<open>(node << 5) | cmd\<close> with \<open>cmd\<close> in the catalogue and a payload of exactly eight bytes of
  which all but the first are zero. \<open>sends_wire_frames node w w'\<close>: the log of \<open>w'\<close> is the
  log of \<open>w\<close> followed by wire frames only.
\<close>

definition catalogue :: "int list" where
  "catalogue = [0x001, 0x003, 0x007, 0x009, 0x01F, 0x016]"

definition wire_frame :: "int \<Rightarrow> message \<Rightarrow> bool" where
  "wire_frame node_id f \<longleftrightarrow>
     \<not> is_extended_id f \<and>
     list_ex (\<lambda>c. arbitration_id f = can_id node_id c) catalogue \<and>
     length (data f) = 8 \<and> drop 1 (data f) = replicate 7 0"

definition sends_wire_frames :: "int \<Rightarrow> world \<Rightarrow> world \<Rightarrow> bool" where
  "sends_wire_frames node_id w w' \<longleftrightarrow>
     take (length (sent w)) (sent w') = sent w \<and>
     list_all (wire_frame node_id) (drop (length (sent w)) (sent w'))"

lemma sends_wire_framesI:
  "sent w' = sent w @ fs \<Longrightarrow> list_all (wire_frame n) fs \<Longrightarrow> sends_wire_frames n w w'"
  by (simp add: sends_wire_frames_def)

lemma sends_wire_framesD:
  "sends_wire_frames n w w' \<Longrightarrow> \<exists>fs. sent w' = sent w @ fs \<and> list_all (wire_frame n) fs"
  unfolding sends_wire_frames_def
  by (metis append_take_drop_id)

lemma sends_wire_frames_refl: "sent w' = sent w \<Longrightarrow> sends_wire_frames n w w'"
  by (simp add: sends_wire_frames_def)

lemma sends_wire_frames_trans:
  assumes "sends_wire_frames n w w1" "sends_wire_frames n w1 w2"
  shows "sends_wire_frames n w w2"
proof -
  from sends_wire_framesD[OF assms(1)] obtain fs where 1: "sent w1 = sent w @ fs"
    "list_all (wire_frame n) fs" by blast
  from sends_wire_framesD[OF assms(2)] obtain gs where 2: "sent w2 = sent w1 @ gs"
    "list_all (wire_frame n) gs" by blast
  show ?thesis
    by (rule sends_wire_framesI[of _ _ "fs @ gs"]) (simp_all add: 1 2)
qed

lemma sends_wire_frames_bind:
  assumes "\<And>w. sends_wire_frames n w (snd (m w))"
    and "\<And>x w. sends_wire_frames n w (snd (f x w))"
  shows "sends_wire_frames n w (snd (bind_prog m f w))"
proof (cases "m w")
  case (Pair r w1)
  with assms(1)[of w] have 1: "sends_wire_frames n w w1" by simp
  show ?thesis
  proof (cases r)
    case (Inl e)
    with Pair 1 show ?thesis by (simp add: bind_prog_def)
  next
    case (Inr x)
    with Pair have "bind_prog m f w = f x w1" by (simp add: bind_prog_def)
    with sends_wire_frames_trans[OF 1 assms(2)[of w1 x]] show ?thesis by simp
  qed
qed

lemma wire_cmd_frame:
  "c \<in> set catalogue \<Longrightarrow> wire_frame n (cmd_frame n c b)"
  by (auto simp: wire_frame_def cmd_frame_def list_ex_iff numeral_eq_Suc)

lemma wire_get_heartbeat: "sends_wire_frames n w (snd (get_heartbeat n w))"
  by (rule sends_wire_frames_refl) (rule get_heartbeat_sent)

lemma wire_get_errors: "sends_wire_frames n w (snd (get_errors n et w))"
proof (cases "0 \<le> et \<and> et < 256")
  case True
  then show ?thesis
    by (intro sends_wire_framesI[of _ _ "[cmd_frame n 3 (word_of_int et)]"])
      (simp_all add: get_errors_sent wire_cmd_frame catalogue_def)
next
  case False
  then show ?thesis
    by (intro sends_wire_frames_refl)
      (simp add: get_errors_def bind_prog_def send_command_bad_byte)
qed

lemma wire_get_encoder_estimates: "sends_wire_frames n w (snd (get_encoder_estimates n w))"
  by (intro sends_wire_framesI[of _ _ "[cmd_frame n 9 0]"])
    (simp_all add: get_encoder_estimates_sent wire_cmd_frame catalogue_def)

lemma wire_save_and_reboot: "sends_wire_frames n w (snd (save_and_reboot n w))"
  by (intro sends_wire_framesI[of _ _ "[cmd_frame n 0x1F 0, cmd_frame n 0x16 0]"])
    (simp_all add: save_and_reboot_run wire_cmd_frame catalogue_def)

lemma wire_test_motor_calibration: "sends_wire_frames n w (snd (test_motor_calibration n w))"
  by (intro sends_wire_framesI[OF test_motor_calibration_sent])
    (simp add: wire_cmd_frame catalogue_def)

lemma wire_test_encoder_calibration:
  "sends_wire_frames n w (snd (test_encoder_calibration n w))"
  by (intro sends_wire_framesI[OF test_encoder_calibration_sent])
    (simp add: wire_cmd_frame catalogue_def)

lemma wire_return: "sends_wire_frames n w (snd (return_prog x w))"
  by (simp add: return_prog_def sends_wire_frames_refl)

lemma wire_full_diagnostic: "sends_wire_frames n w (snd (full_diagnostic n w))"
  unfolding full_diagnostic_def
  by (intro sends_wire_frames_bind wire_get_heartbeat wire_get_errors
      wire_get_encoder_estimates wire_test_motor_calibration wire_test_encoder_calibration
      wire_save_and_reboot wire_return)
    (auto split: option.splits intro!: sends_wire_frames_bind wire_get_heartbeat wire_get_errors
      wire_get_encoder_estimates wire_test_motor_calibration wire_test_encoder_calibration
      wire_save_and_reboot wire_return)

text \<open>
  Claim C8. Whatever the bus delivers and whatever the outcome (a normal return or an
  exception), each operation of the client only appends wire frames of the client's node
  to the log of sent frames: non-extended, identifier \<open>(node << 5) | cmd\<close> for a
  command of the catalogue, eight payload bytes, zero after the first.
\<close>

theorem every_sent_frame_is_wire_frame:
  "sends_wire_frames n w (snd (get_heartbeat n w)) \<and>
   sends_wire_frames n w (snd (get_errors n et w)) \<and>
   sends_wire_frames n w (snd (get_encoder_estimates n w)) \<and>
   sends_wire_frames n w (snd (test_motor_calibration n w)) \<and>
   sends_wire_frames n w (snd (test_encoder_calibration n w)) \<and>
   sends_wire_frames n w (snd (save_and_reboot n w)) \<and>
   sends_wire_frames n w (snd (full_diagnostic n w))"
  by (intro conjI wire_get_heartbeat wire_get_errors wire_get_encoder_estimates
      wire_test_motor_calibration wire_test_encoder_calibration wire_save_and_reboot
      wire_full_diagnostic)

theorem every_sent_frame_is_wire_frame_witness:
  "sends_wire_frames 1 lone_heartbeat (snd (full_diagnostic 1 lone_heartbeat)) \<and>
   list_all (wire_frame 1) (sent (snd (full_diagnostic 1 lone_heartbeat))) \<and>
   length (sent (snd (full_diagnostic 1 lone_heartbeat))) = 10"
  using every_sent_frame_is_wire_frame[of 1 lone_heartbeat 0]
  by (simp add: lone_heartbeat_run sends_wire_frames_def)
    (simp add: lone_heartbeat_def)

section \<open>The response waiter\<close>

text \<open>
  A wait racing against a frame \<open>(a, m)\<close> of the awaited identifier, when no frame queued
  before it arrives later than it: either the wait returns \<open>m\<close>, or it returns an earlier
  frame of the same identifier, or it times out; in the last two cases \<open>(a, m)\<close> is still
  queued and the clock has not passed beyond its arrival (or beyond where it started).
\<close>

lemma wait_loop_race:
  assumes "inbox w = pre @ (a, m) # post" and "\<forall>y\<in>set pre. fst y \<le> a"
    and "arbitration_id m = cid" and "wait_loop cid s t w = (r, w')"
  shows "(r = Some m \<and> w' = w\<lparr>clock := max (clock w) a, inbox := post\<rparr> \<and>
            (\<forall>y\<in>set pre. arbitration_id (snd y) \<noteq> cid)) \<or>
         (\<exists>p b f pre'. r = Some f \<and> pre = p @ (b, f) # pre' \<and> arbitration_id f = cid \<and>
            inbox w' = pre' @ (a, m) # post \<and> clock w' \<le> max (clock w) a) \<or>
         (\<exists>p pre'. r = None \<and> pre = p @ pre' \<and> inbox w' = pre' @ (a, m) # post \<and>
            clock w' \<le> max (clock w) a \<and> s + t \<le> clock w')"
  using assms
proof (induction cid s t w arbitrary: pre rule: wait_loop.induct)
  case (1 cid s t w)
  note ib = "1.prems"(1) and le = "1.prems"(2) and mt = "1.prems"(3) and run = "1.prems"(4)
  show ?case
  proof (cases "clock w - s < t")
    case False
    with run have "r = None" "w' = w" by (simp_all add: wait_loop.simps[of cid s t w])
    with False ib have "\<exists>p pre'. r = None \<and> pre = p @ pre' \<and> inbox w' = pre' @ (a, m) # post \<and>
            clock w' \<le> max (clock w) a \<and> s + t \<le> clock w'"
      by (intro exI[of _ "[]"] exI[of _ pre]) simp
    then show ?thesis by blast
  next
    case lt: True
    obtain r1 w1 where r1: "recv 1 w = (r1, w1)" by fastforce
    from recv_cases[OF r1] show ?thesis
    proof (elim disjE conjE exE)
      assume n: "r1 = None" and w1: "w1 = w\<lparr>clock := clock w + 1\<rparr>"
        and hd: "\<forall>t msg rest. inbox w = (t, msg) # rest \<longrightarrow> clock w + 1 \<le> t"
      have ca: "clock w + 1 \<le> a"
      proof (cases pre)
        case Nil
        with ib hd show ?thesis by simp
      next
        case (Cons y pre1)
        with ib hd have "clock w + 1 \<le> fst y" by (cases y) simp
        moreover from Cons le have "fst y \<le> a" by simp
        ultimately show ?thesis by simp
      qed
      then have mx: "max (clock w + 1) a = a" "max (clock w) a = a" by simp_all
      from run lt r1 n have run1: "wait_loop cid s t w1 = (r, w')"
        by (simp add: wait_loop.simps[of cid s t w])
      from ib w1 have ib1: "inbox w1 = pre @ (a, m) # post" by simp
      from "1.IH"(1)[OF lt r1[symmetric] n ib1 le mt run1]
      show ?thesis by (simp add: w1 mx)
    next
      fix b f rest
      assume ib': "inbox w = (b, f) # rest" and b: "b < clock w + 1" and s: "r1 = Some f"
        and w1: "w1 = w\<lparr>clock := max (clock w) b, inbox := rest\<rparr>"
      show ?thesis
      proof (cases pre)
        case Nil
        with ib ib' have eq: "b = a" "f = m" "rest = post" by simp_all
        with run lt r1 s mt have "r = Some m" "w' = w1"
          by (simp_all add: wait_loop.simps[of cid s t w])
        with w1 eq Nil show ?thesis by simp
      next
        case (Cons y pre1)
        with ib ib' have y: "y = (b, f)" and rest: "rest = pre1 @ (a, m) # post" by simp_all
        from Cons le y have ba: "b \<le> a" by simp
        then have mx: "max (max (clock w) b) a = max (clock w) a" by simp
        show ?thesis
        proof (cases "arbitration_id f = cid")
          case True
          with run lt r1 s have "r = Some f" "w' = w1"
            by (simp_all add: wait_loop.simps[of cid s t w])
          with w1 rest True Cons y ba
          have "\<exists>p b f pre'. r = Some f \<and> pre = p @ (b, f) # pre' \<and> arbitration_id f = cid \<and>
            inbox w' = pre' @ (a, m) # post \<and> clock w' \<le> max (clock w) a"
            by (intro exI[of _ "[]"] exI[of _ b] exI[of _ f] exI[of _ pre1]) simp
          then show ?thesis by blast
        next
          case False
          with run lt r1 s have run1: "wait_loop cid s t w1 = (r, w')"
            by (simp add: wait_loop.simps[of cid s t w])
          from w1 rest have ib1: "inbox w1 = pre1 @ (a, m) # post" by simp
          from Cons le have le1: "\<forall>y\<in>set pre1. fst y \<le> a" by simp
          from "1.IH"(2)[OF lt r1[symmetric] s False ib1 le1 mt run1]
          show ?thesis
          proof (elim disjE exE conjE)
            assume "r = Some m" "w' = w1\<lparr>clock := max (clock w1) a, inbox := post\<rparr>"
              "\<forall>y\<in>set pre1. arbitration_id (snd y) \<noteq> cid"
            with w1 mx False Cons y show ?thesis by simp
          next
            fix p b' f' pre'
            assume "r = Some f'" "pre1 = p @ (b', f') # pre'" "arbitration_id f' = cid"
              "inbox w' = pre' @ (a, m) # post" "clock w' \<le> max (clock w1) a"
            with w1 mx Cons
            have "\<exists>p b f pre'. r = Some f \<and> pre = p @ (b, f) # pre' \<and> arbitration_id f = cid \<and>
              inbox w' = pre' @ (a, m) # post \<and> clock w' \<le> max (clock w) a"
              by (intro exI[of _ "y # p"] exI[of _ b'] exI[of _ f'] exI[of _ pre']) simp
            then show ?thesis by blast
          next
            fix p pre'
            assume "r = None" "pre1 = p @ pre'" "inbox w' = pre' @ (a, m) # post"
              "clock w' \<le> max (clock w1) a" "s + t \<le> clock w'"
            with w1 mx Cons
            have "\<exists>p pre'. r = None \<and> pre = p @ pre' \<and> inbox w' = pre' @ (a, m) # post \<and>
              clock w' \<le> max (clock w) a \<and> s + t \<le> clock w'"
              by (intro exI[of _ "y # p"] exI[of _ pre']) simp
            then show ?thesis by blast
          qed
        qed
      qed
    qed
  qed
qed

text \<open>Two frames of other commands, then two replies to command 3.\<close>

definition busy :: world where
  "busy =
     \<lparr>clock = 0,
      inbox = [(1 / 2, cmd_frame 1 9 5), (1, cmd_frame 1 1 6), (3 / 2, cmd_frame 1 3 7),
               (2, cmd_frame 1 3 8)],
      sent = []\<rparr>"

text \<open>Traffic for other commands only, every half second.\<close>

definition chatter :: world where
  "chatter =
     \<lparr>clock = 0,
      inbox = [(1 / 2, cmd_frame 1 9 0), (1, cmd_frame 1 1 0), (3 / 2, cmd_frame 1 9 0),
               (2, cmd_frame 1 1 0), (5 / 2, cmd_frame 1 9 0), (3, cmd_frame 1 1 0),
               (7 / 2, cmd_frame 1 9 0)],
      sent = []\<rparr>"

text \<open>A frame of another command, then the reply 3.4 seconds after the start.\<close>

definition late_reply :: world where
  "late_reply =
     \<lparr>clock = 0,
      inbox = [(1 / 2, cmd_frame 1 9 0), (17 / 5, cmd_frame 1 3 0)],
      sent = []\<rparr>"

lemma can_id_1 [simp]: "can_id 1 1 = 33" "can_id 1 3 = 35" "can_id 1 9 = 41"
  by (simp_all add: can_id_def)

text \<open>
  Claim C4 says that the waiter yields a timeout whenever no matching frame arrives before
  the cumulative deadline. The deadline is only tested between two receives, and a receive
  begun before the deadline may block for up to a second: with a timeout of 3 s, a receive
  begun at 2.5 s returns the reply that arrives at 3.4 s, after the deadline, and the
  waiter returns it.
\<close>

theorem wait_for_message_late_counterexample:
  "filter (\<lambda>x. arbitration_id (snd x) = can_id 1 3 \<and> fst x < clock late_reply + 3)
     (inbox late_reply) = [] \<and>
   wait_for_message 1 3 3 late_reply =
     (Some (cmd_frame 1 3 0), \<lparr>clock = 17 / 5, inbox = [], sent = []\<rparr>)"
  by (simp add: late_reply_def wait_for_message_def wait_loop.simps recv_def cmd_frame_def)

text \<open>
  Claim C4, amended. Whatever frames arrive: a frame the waiter returns has the awaited
  identifier \<open>(node << 5) | cmd\<close>, is the first such frame of the stream, arrived less than
  one second after the deadline, and the frames before it are gone from the stream. If the
  first matching frame arrives before the deadline (and no frame queued before it arrives
  later, and the timeout is positive), the waiter returns it, at its arrival. If no
  matching frame arrives earlier than one second after the deadline, the waiter times
  out, not before the deadline, however much other traffic there is.
\<close>

theorem wait_for_message_first_match:
  "(\<forall>m w'. wait_for_message n c t w = (Some m, w') \<longrightarrow>
      arbitration_id m = can_id n c \<and>
      (\<exists>pre a. inbox w = pre @ (a, m) # inbox w' \<and>
         (\<forall>x\<in>set pre. arbitration_id (snd x) \<noteq> can_id n c) \<and> a < clock w + t + 1)) \<and>
   (\<forall>pre a m post. 0 < t \<and> inbox w = pre @ (a, m) # post \<and>
      (\<forall>x\<in>set pre. arbitration_id (snd x) \<noteq> can_id n c \<and> fst x \<le> a) \<and>
      arbitration_id m = can_id n c \<and> a < clock w + t \<longrightarrow>
      wait_for_message n c t w = (Some m, w\<lparr>clock := max (clock w) a, inbox := post\<rparr>)) \<and>
   ((\<forall>x\<in>set (inbox w). arbitration_id (snd x) = can_id n c \<longrightarrow> clock w + t + 1 \<le> fst x) \<longrightarrow>
      fst (wait_for_message n c t w) = None \<and>
      clock w + t \<le> clock (snd (wait_for_message n c t w)))"
proof (intro conjI allI impI)
  fix m w'
  assume "wait_for_message n c t w = (Some m, w')"
  then have run: "wait_loop (can_id n c) (clock w) t w = (Some m, w')"
    by (simp add: wait_for_message_def)
  from wait_loop_Some[OF run] show "arbitration_id m = can_id n c" by blast
  from wait_loop_Some[OF run]
  show "\<exists>pre a. inbox w = pre @ (a, m) # inbox w' \<and>
         (\<forall>x\<in>set pre. arbitration_id (snd x) \<noteq> can_id n c) \<and> a < clock w + t + 1"
    by blast
next
  fix pre a m post
  assume h: "0 < t \<and> inbox w = pre @ (a, m) # post \<and>
      (\<forall>x\<in>set pre. arbitration_id (snd x) \<noteq> can_id n c \<and> fst x \<le> a) \<and>
      arbitration_id m = can_id n c \<and> a < clock w + t"
  obtain r w' where run: "wait_loop (can_id n c) (clock w) t w = (r, w')" by fastforce
  from h have ib: "inbox w = pre @ (a, m) # post" and le: "\<forall>y\<in>set pre. fst y \<le> a"
    and mt: "arbitration_id m = can_id n c" by simp_all
  from wait_loop_race[OF ib le mt run]
  have "r = Some m \<and> w' = w\<lparr>clock := max (clock w) a, inbox := post\<rparr>"
  proof (elim disjE exE conjE)
    fix p b f pre'
    assume "pre = p @ (b, f) # pre'" "arbitration_id f = can_id n c"
    with h show ?thesis by auto
  next
    fix p pre'
    assume "clock w' \<le> max (clock w) a" "clock w + t \<le> clock w'"
    with h show ?thesis by (auto simp: max_def split: if_splits)
  qed simp
  with run show "wait_for_message n c t w =
      (Some m, w\<lparr>clock := max (clock w) a, inbox := post\<rparr>)"
    by (simp add: wait_for_message_def)
next
  assume h: "\<forall>x\<in>set (inbox w). arbitration_id (snd x) = can_id n c \<longrightarrow> clock w + t + 1 \<le> fst x"
  obtain r w' where run: "wait_loop (can_id n c) (clock w) t w = (r, w')" by fastforce
  have r: "r = None"
  proof (cases r)
    case (Some m)
    from wait_loop_Some[OF run[unfolded Some]] obtain pre a where
      "inbox w = pre @ (a, m) # inbox w'" "arbitration_id m = can_id n c" "a < clock w + t + 1"
      by blast
    with h show ?thesis by auto
  qed simp
  with run show "fst (wait_for_message n c t w) = None" by (simp add: wait_for_message_def)
  from wait_loop_None[OF run[unfolded r]] run
  show "clock w + t \<le> clock (snd (wait_for_message n c t w))"
    by (auto simp: wait_for_message_def)
qed

theorem wait_for_message_first_match_witness:
  "wait_for_message 1 3 3 busy =
     (Some (cmd_frame 1 3 7), \<lparr>clock = 3 / 2, inbox = [(2, cmd_frame 1 3 8)], sent = []\<rparr>) \<and>
   fst (wait_for_message 1 3 3 chatter) = None \<and>
   3 \<le> clock (snd (wait_for_message 1 3 3 chatter))"
proof -
  have "wait_for_message 1 3 3 busy =
     (Some (cmd_frame 1 3 7), busy\<lparr>clock := max (clock busy) (3 / 2),
        inbox := [(2, cmd_frame 1 3 8)]\<rparr>)"
    by (rule wait_for_message_first_match[of 1 3 3 busy, THEN conjunct2, THEN conjunct1,
          rule_format, of "[(1 / 2, cmd_frame 1 9 5), (1, cmd_frame 1 1 6)]"])
       (simp add: busy_def cmd_frame_def)
  moreover have "fst (wait_for_message 1 3 3 chatter) = None \<and>
      clock chatter + 3 \<le> clock (snd (wait_for_message 1 3 3 chatter))"
    by (rule wait_for_message_first_match[of 1 3 3 chatter, THEN conjunct2, THEN conjunct2,
          rule_format])
       (auto simp: chatter_def cmd_frame_def)
  ultimately show ?thesis by (simp add: busy_def chatter_def)
qed

section \<open>The calibration pollers\<close>

text \<open>One round of the monitoring loop, by what the one-second wait for a heartbeat gave.\<close>

lemma byte_at_4:
  "4 < length bs \<Longrightarrow> byte_at bs 4 = Inr (uint (bs ! 4))"
  "\<not> 4 < length bs \<Longrightarrow> byte_at bs 4 = Inl IndexError"
  by (simp_all add: byte_at_def)

lemma uint_byte_1: "uint (b :: byte) = 1 \<longleftrightarrow> b = 1"
  by (metis uint_1_eq word_uint_eq_iff)

lemma calibration_loop_step_None:
  "clock w - s < d \<Longrightarrow> wait_for_message n 1 1 w = (None, w1) \<Longrightarrow>
   calibration_loop n s d w = calibration_loop n s d w1"
  by (simp add: calibration_loop.simps[of n s d w])

lemma calibration_loop_step_Some:
  "clock w - s < d \<Longrightarrow> wait_for_message n 1 1 w = (Some f, w1) \<Longrightarrow>
   calibration_loop n s d w =
     (if 4 < length (data f)
      then if data f ! 4 = 1 then (Inr True, w1) else calibration_loop n s d w1
      else (Inl IndexError, w1))"
  by (simp add: calibration_loop.simps[of n s d w] byte_at_def uint_byte_1)

lemma calibration_loop_stop:
  "\<not> clock w - s < d \<Longrightarrow> calibration_loop n s d w = (Inr False, w)"
  by (simp add: calibration_loop.simps[of n s d w])

text \<open>
  An idle heartbeat that arrives before the deadline ends the loop with success, when no
  frame queued before it arrives later and the heartbeats before it have a fifth byte.
\<close>

lemma calibration_loop_idle:
  assumes "inbox w = pre @ (a, m) # post"
    and "\<forall>y\<in>set pre. fst y \<le> a \<and>
           (arbitration_id (snd y) = can_id n 1 \<longrightarrow> 4 < length (data (snd y)))"
    and "arbitration_id m = can_id n 1" and "4 < length (data m)" and "data m ! 4 = 1"
    and "a < s + d" and "clock w \<le> max s a" and "0 < d"
  shows "fst (calibration_loop n s d w) = Inr True"
  using assms
proof (induction n s d w arbitrary: pre rule: calibration_loop.induct)
  case (1 n s d w)
  note ib = "1.prems"(1) and pr = "1.prems"(2) and mt = "1.prems"(3) and ln = "1.prems"(4)
    and idle = "1.prems"(5) and ad = "1.prems"(6) and cl = "1.prems"(7) and dp = "1.prems"(8)
  from ad cl dp have lt: "clock w - s < d" by (auto simp: max_def split: if_splits)
  obtain r w1 where wm: "wait_for_message n 1 1 w = (r, w1)" by fastforce
  then have run: "wait_loop (can_id n 1) (clock w) 1 w = (r, w1)"
    by (simp add: wait_for_message_def)
  from pr have le: "\<forall>y\<in>set pre. fst y \<le> a" by simp
  from wait_loop_race[OF ib le mt run] show ?case
  proof (elim disjE exE conjE)
    assume "r = Some m"
    with wm lt ln idle show ?thesis by (simp add: calibration_loop_step_Some)
  next
    fix p b f pre'
    assume r: "r = Some f" and pre: "pre = p @ (b, f) # pre'"
      and f: "arbitration_id f = can_id n 1"
      and ib1: "inbox w1 = pre' @ (a, m) # post" and c1: "clock w1 \<le> max (clock w) a"
    from pre pr f have lf: "4 < length (data f)" by auto
    from pre pr have pr1: "\<forall>y\<in>set pre'. fst y \<le> a \<and>
           (arbitration_id (snd y) = can_id n 1 \<longrightarrow> 4 < length (data (snd y)))" by simp
    from c1 cl have cl1: "clock w1 \<le> max s a" by (auto simp: max_def split: if_splits)
    show ?thesis
    proof (cases "data f ! 4 = 1")
      case True
      with wm r lt lf show ?thesis by (simp add: calibration_loop_step_Some)
    next
      case False
      then have ne: "uint (data f ! 4) \<noteq> 1" by (simp add: uint_byte_1)
      from lf have ba: "byte_at (data f) 4 = Inr (uint (data f ! 4))" by (rule byte_at_4)
      from "1.IH"(2)[OF lt wm[symmetric] r ba ne ib1 pr1 mt ln idle ad cl1 dp]
      have "fst (calibration_loop n s d w1) = Inr True" .
      with wm r lt lf False show ?thesis by (simp add: calibration_loop_step_Some)
    qed
  next
    fix p pre'
    assume r: "r = None" and pre: "pre = p @ pre'"
      and ib1: "inbox w1 = pre' @ (a, m) # post" and c1: "clock w1 \<le> max (clock w) a"
    from pre pr have pr1: "\<forall>y\<in>set pre'. fst y \<le> a \<and>
           (arbitration_id (snd y) = can_id n 1 \<longrightarrow> 4 < length (data (snd y)))" by simp
    from c1 cl have cl1: "clock w1 \<le> max s a" by (auto simp: max_def split: if_splits)
    from "1.IH"(1)[OF lt wm[symmetric] r ib1 pr1 mt ln idle ad cl1 dp]
    have "fst (calibration_loop n s d w1) = Inr True" .
    with wm r lt show ?thesis by (simp add: calibration_loop_step_None)
  qed
qed

lemma wait_for_message_Some_inbox:
  assumes "wait_for_message n c t w = (Some f, w1)"
  shows "\<exists>a. (a, f) \<in> set (inbox w) \<and> arbitration_id f = can_id n c \<and> a < clock w + t + 1 \<and>
           set (inbox w1) \<subseteq> set (inbox w)"
proof -
  from assms have "wait_loop (can_id n c) (clock w) t w = (Some f, w1)"
    by (simp add: wait_for_message_def)
  from wait_loop_Some[OF this] obtain pre a where
    "inbox w = pre @ (a, f) # inbox w1" "arbitration_id f = can_id n c" "a < clock w + t + 1"
    by blast
  then show ?thesis by (intro exI[of _ a]) auto
qed

lemma wait_for_message_None_inbox:
  assumes "wait_for_message n c t w = (None, w1)"
  shows "set (inbox w1) \<subseteq> set (inbox w) \<and> clock w + t \<le> clock w1"
proof -
  from assms have "wait_loop (can_id n c) (clock w) t w = (None, w1)"
    by (simp add: wait_for_message_def)
  from wait_loop_None[OF this] obtain pre where
    "inbox w = pre @ inbox w1" "clock w + t \<le> clock w1"
    by blast
  then show ?thesis by auto
qed

text \<open>
  Success comes from an idle heartbeat of the stream that arrived less than two seconds
  after the deadline; failure comes only once the deadline has passed; heartbeats with a
  fifth byte raise no exception.
\<close>

lemma calibration_loop_True:
  assumes "calibration_loop n s d w = (Inr True, w')"
  shows "\<exists>x\<in>set (inbox w). arbitration_id (snd x) = can_id n 1 \<and> 4 < length (data (snd x)) \<and>
           data (snd x) ! 4 = 1 \<and> fst x < s + d + 2"
  using assms
proof (induction n s d w rule: calibration_loop.induct)
  case (1 n s d w)
  from "1.prems" have lt: "clock w - s < d"
    by (cases "clock w - s < d") (simp_all add: calibration_loop_stop)
  obtain r w1 where wm: "wait_for_message n 1 1 w = (r, w1)" by fastforce
  show ?case
  proof (cases r)
    case None
    with "1.prems" wm lt have "calibration_loop n s d w1 = (Inr True, w')"
      by (simp add: calibration_loop_step_None)
    from "1.IH"(1)[OF lt wm[symmetric] None this]
      wait_for_message_None_inbox[OF wm[unfolded None]]
    show ?thesis by blast
  next
    case (Some f)
    from wait_for_message_Some_inbox[OF wm[unfolded Some]] obtain a where
      a: "(a, f) \<in> set (inbox w)" "arbitration_id f = can_id n 1" "a < clock w + 1 + 1"
      and sub: "set (inbox w1) \<subseteq> set (inbox w)" by blast
    from "1.prems" wm Some lt have lf: "4 < length (data f)"
      by (cases "4 < length (data f)") (simp_all add: calibration_loop_step_Some)
    show ?thesis
    proof (cases "data f ! 4 = 1")
      case True
      from a lt have "a < s + d + 2" by simp
      with a lf True show ?thesis by (intro bexI[of _ "(a, f)"]) simp_all
    next
      case False
      then have ne: "uint (data f ! 4) \<noteq> 1" by (simp add: uint_byte_1)
      from lf have ba: "byte_at (data f) 4 = Inr (uint (data f ! 4))" by (rule byte_at_4)
      from "1.prems" wm Some lt lf False have "calibration_loop n s d w1 = (Inr True, w')"
        by (simp add: calibration_loop_step_Some)
      from "1.IH"(2)[OF lt wm[symmetric] Some ba ne this] sub
      show ?thesis by blast
    qed
  qed
qed

lemma calibration_loop_False:
  assumes "calibration_loop n s d w = (Inr False, w')"
  shows "s + d \<le> clock w'"
  using assms
proof (induction n s d w rule: calibration_loop.induct)
  case (1 n s d w)
  show ?case
  proof (cases "clock w - s < d")
    case False
    with "1.prems" show ?thesis by (simp add: calibration_loop_stop)
  next
    case lt: True
    obtain r w1 where wm: "wait_for_message n 1 1 w = (r, w1)" by fastforce
    show ?thesis
    proof (cases r)
      case None
      with "1.prems" wm lt have "calibration_loop n s d w1 = (Inr False, w')"
        by (simp add: calibration_loop_step_None)
      from "1.IH"(1)[OF lt wm[symmetric] None this] show ?thesis .
    next
      case (Some f)
      from "1.prems" wm Some lt have lf: "4 < length (data f)"
        by (cases "4 < length (data f)") (simp_all add: calibration_loop_step_Some)
      from "1.prems" wm Some lt lf have ne1: "data f ! 4 \<noteq> 1"
        by (cases "data f ! 4 = 1") (simp_all add: calibration_loop_step_Some)
      then have ne: "uint (data f ! 4) \<noteq> 1" by (simp add: uint_byte_1)
      from lf have ba: "byte_at (data f) 4 = Inr (uint (data f ! 4))" by (rule byte_at_4)
      from "1.prems" wm Some lt lf ne1 have "calibration_loop n s d w1 = (Inr False, w')"
        by (simp add: calibration_loop_step_Some)
      from "1.IH"(2)[OF lt wm[symmetric] Some ba ne this] show ?thesis .
    qed
  qed
qed

lemma calibration_loop_no_exception:
  assumes "\<forall>x\<in>set (inbox w). arbitration_id (snd x) = can_id n 1 \<longrightarrow> 4 < length (data (snd x))"
  shows "\<exists>b. fst (calibration_loop n s d w) = Inr b"
  using assms
proof (induction n s d w rule: calibration_loop.induct)
  case (1 n s d w)
  show ?case
  proof (cases "clock w - s < d")
    case False
    then show ?thesis by (intro exI[of _ False]) (simp add: calibration_loop_stop)
  next
    case lt: True
    obtain r w1 where wm: "wait_for_message n 1 1 w = (r, w1)" by fastforce
    show ?thesis
    proof (cases r)
      case None
      from wait_for_message_None_inbox[OF wm[unfolded None]] "1.prems"
      have "\<forall>x\<in>set (inbox w1). arbitration_id (snd x) = can_id n 1 \<longrightarrow>
              4 < length (data (snd x))" by blast
      from "1.IH"(1)[OF lt wm[symmetric] None this] wm None lt show ?thesis
        by (simp add: calibration_loop_step_None)
    next
      case (Some f)
      from wait_for_message_Some_inbox[OF wm[unfolded Some]] obtain a where
        a: "(a, f) \<in> set (inbox w)" "arbitration_id f = can_id n 1"
        and sub: "set (inbox w1) \<subseteq> set (inbox w)" by blast
      from a "1.prems" have lf: "4 < length (data f)" by auto
      from sub "1.prems"
      have wf1: "\<forall>x\<in>set (inbox w1). arbitration_id (snd x) = can_id n 1 \<longrightarrow>
              4 < length (data (snd x))" by blast
      show ?thesis
      proof (cases "data f ! 4 = 1")
        case True
        with wm Some lt lf show ?thesis
          by (intro exI[of _ True]) (simp add: calibration_loop_step_Some)
      next
        case False
        then have ne: "uint (data f ! 4) \<noteq> 1" by (simp add: uint_byte_1)
        from lf have ba: "byte_at (data f) 4 = Inr (uint (data f ! 4))" by (rule byte_at_4)
        from "1.IH"(2)[OF lt wm[symmetric] Some ba ne wf1] wm Some lt lf False
        show ?thesis by (simp add: calibration_loop_step_Some)
      qed
    qed
  qed
qed

text \<open>
  An idle sample is a heartbeat frame of the node whose byte 4 (the axis state) is 1. The
  heartbeats of a world are readable when each has at least five payload bytes, so that
  reading byte 4 raises no \<^verbatim>\<open>IndexError\<close>.
\<close>

definition idle_sample :: "int \<Rightarrow> rat \<times> message \<Rightarrow> bool" where
  "idle_sample node_id x \<longleftrightarrow>
     arbitration_id (snd x) = can_id node_id 0x001 \<and> 4 < length (data (snd x)) \<and>
     data (snd x) ! 4 = 1"

definition heartbeats_readable :: "int \<Rightarrow> world \<Rightarrow> bool" where
  "heartbeats_readable node_id w \<longleftrightarrow>
     list_all (\<lambda>x. arbitration_id (snd x) = can_id node_id 0x001 \<longrightarrow> 4 < length (data (snd x)))
       (inbox w)"

lemma calibration_outcome:
  fixes n k :: int and d :: rat
  defines "prog \<equiv>
     bind_prog (send_command n 0x007 (Some [k, 0, 0, 0, 0, 0, 0, 0])) (\<lambda>_.
     bind_prog (\<lambda>w. calibration_loop n (clock w) d w) (\<lambda>success.
     bind_prog (if \<not> success
                then send_command n 0x007 (Some [1, 0, 0, 0, 0, 0, 0, 0])
                else return_prog ()) (\<lambda>_.
     return_prog success)))"
  assumes k: "0 \<le> k" "k < 256" and d: "0 < d"
    and srt: "sorted (map fst (inbox w))" and rd: "heartbeats_readable n w"
  shows "((fst (prog w) = Inr True \<and>
           sent (snd (prog w)) = sent w @ [cmd_frame n 7 (word_of_int k)]) \<or>
          (fst (prog w) = Inr False \<and>
           sent (snd (prog w)) = sent w @ [cmd_frame n 7 (word_of_int k), cmd_frame n 7 1] \<and>
           clock w + d \<le> clock (snd (prog w)))) \<and>
         ((\<exists>x\<in>set (inbox w). idle_sample n x \<and> fst x < clock w + d) \<longrightarrow>
            fst (prog w) = Inr True) \<and>
         ((\<forall>x\<in>set (inbox w). idle_sample n x \<longrightarrow> clock w + d + 2 \<le> fst x) \<longrightarrow>
            fst (prog w) = Inr False)"
proof -
  define w1 where "w1 = w\<lparr>sent := sent w @ [cmd_frame n 7 (word_of_int k)]\<rparr>"
  have w1: "inbox w1 = inbox w" "clock w1 = clock w"
    "sent w1 = sent w @ [cmd_frame n 7 (word_of_int k)]"
    by (simp_all add: w1_def)
  obtain r w2 where cl: "calibration_loop n (clock w) d w1 = (r, w2)" by fastforce
  from rd have rd': "\<forall>x\<in>set (inbox w1). arbitration_id (snd x) = can_id n 1 \<longrightarrow>
      4 < length (data (snd x))"
    by (simp add: heartbeats_readable_def list_all_iff w1)
  from calibration_loop_no_exception[OF rd', of "clock w" d] cl
  obtain b where r: "r = Inr b" by auto
  from cl have s2: "sent w2 = sent w1" by (rule calibration_loop_sent')
  have run: "prog w = (if b then (Inr True, w2)
      else (Inr False, w2\<lparr>sent := sent w2 @ [cmd_frame n 7 1]\<rparr>))"
    using k cl r
    by (simp add: prog_def bind_prog_def send_command_byte return_prog_def w1_def)
  have fst_run: "fst (prog w) = Inr b" by (simp add: run)
  have 1: "(fst (prog w) = Inr True \<and>
           sent (snd (prog w)) = sent w @ [cmd_frame n 7 (word_of_int k)]) \<or>
          (fst (prog w) = Inr False \<and>
           sent (snd (prog w)) = sent w @ [cmd_frame n 7 (word_of_int k), cmd_frame n 7 1] \<and>
           clock w + d \<le> clock (snd (prog w)))"
  proof (cases b)
    case True
    then show ?thesis by (simp add: run s2 w1)
  next
    case False
    with cl r have "calibration_loop n (clock w) d w1 = (Inr False, w2)" by simp
    from calibration_loop_False[OF this] False show ?thesis by (simp add: run s2 w1)
  qed
  have 2: "fst (prog w) = Inr True"
    if "\<exists>x\<in>set (inbox w). idle_sample n x \<and> fst x < clock w + d"
  proof -
    from that obtain x where x: "x \<in> set (inbox w)" "idle_sample n x" "fst x < clock w + d"
      by blast
    obtain a m where am: "x = (a, m)" by (cases x)
    from x(1) obtain pre post where sp: "inbox w = pre @ x # post"
      by (auto dest: split_list)
    with srt have "\<forall>y\<in>set pre. fst y \<le> fst x"
      by (auto simp: sorted_append)
    moreover from rd sp have "\<forall>y\<in>set pre. arbitration_id (snd y) = can_id n 1 \<longrightarrow>
        4 < length (data (snd y))"
      by (simp add: heartbeats_readable_def list_all_iff)
    ultimately have pr: "\<forall>y\<in>set pre. fst y \<le> a \<and>
           (arbitration_id (snd y) = can_id n 1 \<longrightarrow> 4 < length (data (snd y)))"
      by (simp add: am)
    from sp am w1 have ib: "inbox w1 = pre @ (a, m) # post" by simp
    from x(2) am have m: "arbitration_id m = can_id n 1" "4 < length (data m)" "data m ! 4 = 1"
      by (simp_all add: idle_sample_def)
    from x(3) am have ad: "a < clock w + d" by simp
    have "clock w1 \<le> max (clock w) a" by (simp add: w1)
    from calibration_loop_idle[OF ib pr m ad this d] cl r have "b" by simp
    then show ?thesis by (simp add: fst_run)
  qed
  have 3: "fst (prog w) = Inr False"
    if h: "\<forall>x\<in>set (inbox w). idle_sample n x \<longrightarrow> clock w + d + 2 \<le> fst x"
  proof (cases b)
    case True
    with cl r have "calibration_loop n (clock w) d w1 = (Inr True, w2)" by simp
    from calibration_loop_True[OF this] obtain x where
      "x \<in> set (inbox w)" "idle_sample n x" "fst x < clock w + d + 2"
      by (auto simp: w1 idle_sample_def)
    with h show ?thesis by fastforce
  next
    case False
    then show ?thesis by (simp add: fst_run)
  qed
  from 1 2 3 show ?thesis by blast
qed

text \<open>
  Heartbeat streams: two samples in state 4 and then idle; samples in state 4 only; one
  sample in state 4 and an idle sample at time \<open>t\<close>.
\<close>

definition heartbeat_frame :: "int \<Rightarrow> byte \<Rightarrow> message" where
  "heartbeat_frame node_id axis_state =
     \<lparr>arbitration_id = can_id node_id 0x001, data = [0, 0, 0, 0, axis_state, 0, 0, 0],
      is_extended_id = False\<rparr>"

definition calibrating :: world where
  "calibrating =
     \<lparr>clock = 0,
      inbox = [(1 / 2, heartbeat_frame 1 4), (1, heartbeat_frame 1 4),
               (3 / 2, heartbeat_frame 1 1)],
      sent = []\<rparr>"

definition stuck :: world where
  "stuck =
     \<lparr>clock = 0,
      inbox = [(1 / 2, heartbeat_frame 1 4), (5, heartbeat_frame 1 4),
               (10, heartbeat_frame 1 4), (29 / 2, heartbeat_frame 1 4)],
      sent = []\<rparr>"

definition late_idle :: "rat \<Rightarrow> world" where
  "late_idle t =
     \<lparr>clock = 0,
      inbox = [(1 / 2, heartbeat_frame 1 4), (t, heartbeat_frame 1 1)],
      sent = []\<rparr>"

text \<open>
  Claim C3 says that a poller succeeds exactly when an idle sample is observed before its
  deadline, and fails, with one corrective command, when the deadline elapses without
  one. The deadline is only tested before each one-second wait, and a wait begun before
  the deadline goes on after it: the motor poller, whose rounds begin at 0.5, 1.5, ...,
  14.5 s after a first sample at 0.5 s, takes the idle sample that arrives at 15.4 s and
  succeeds without a corrective command although the 15 s deadline elapsed with no idle
  sample; the encoder poller does the same with an idle sample at 20.4 s.
\<close>

theorem calibration_poller_late_idle_counterexample:
  "filter (\<lambda>x. idle_sample 1 x \<and> fst x < clock (late_idle (77 / 5)) + 15)
     (inbox (late_idle (77 / 5))) = [] \<and>
   test_motor_calibration 1 (late_idle (77 / 5)) =
     (Inr True, \<lparr>clock = 77 / 5, inbox = [], sent = [cmd_frame 1 0x007 4]\<rparr>) \<and>
   filter (\<lambda>x. idle_sample 1 x \<and> fst x < clock (late_idle (102 / 5)) + 20)
     (inbox (late_idle (102 / 5))) = [] \<and>
   test_encoder_calibration 1 (late_idle (102 / 5)) =
     (Inr True, \<lparr>clock = 102 / 5, inbox = [], sent = [cmd_frame 1 0x007 7]\<rparr>)"
  by code_simp

text \<open>
  Claim C3, amended. For every heartbeat stream that arrives in order and whose heartbeats
  are readable, each poller (motor: start state 4, deadline 15 s; encoder offset: start
  state 7, deadline 20 s) ends in one of two ways: success, having sent only its start
  command, or failure, not before the deadline, having sent its start command and exactly
  one corrective set-axis-state(Idle) command. It succeeds whenever an idle sample arrives
  before the deadline, and it fails whenever no idle sample arrives earlier than two
  seconds after the deadline.
\<close>

theorem calibration_poller_outcome:
  assumes "sorted (map fst (inbox w))" and "heartbeats_readable n w"
  shows
    "((fst (test_motor_calibration n w) = Inr True \<and>
       sent (snd (test_motor_calibration n w)) = sent w @ [cmd_frame n 0x007 4]) \<or>
      (fst (test_motor_calibration n w) = Inr False \<and>
       sent (snd (test_motor_calibration n w)) =
         sent w @ [cmd_frame n 0x007 4, cmd_frame n 0x007 1] \<and>
       clock w + 15 \<le> clock (snd (test_motor_calibration n w)))) \<and>
     ((\<exists>x\<in>set (inbox w). idle_sample n x \<and> fst x < clock w + 15) \<longrightarrow>
        fst (test_motor_calibration n w) = Inr True) \<and>
     ((\<forall>x\<in>set (inbox w). idle_sample n x \<longrightarrow> clock w + 17 \<le> fst x) \<longrightarrow>
        fst (test_motor_calibration n w) = Inr False) \<and>
     ((fst (test_encoder_calibration n w) = Inr True \<and>
       sent (snd (test_encoder_calibration n w)) = sent w @ [cmd_frame n 0x007 7]) \<or>
      (fst (test_encoder_calibration n w) = Inr False \<and>
       sent (snd (test_encoder_calibration n w)) =
         sent w @ [cmd_frame n 0x007 7, cmd_frame n 0x007 1] \<and>
       clock w + 20 \<le> clock (snd (test_encoder_calibration n w)))) \<and>
     ((\<exists>x\<in>set (inbox w). idle_sample n x \<and> fst x < clock w + 20) \<longrightarrow>
        fst (test_encoder_calibration n w) = Inr True) \<and>
     ((\<forall>x\<in>set (inbox w). idle_sample n x \<longrightarrow> clock w + 22 \<le> fst x) \<longrightarrow>
        fst (test_encoder_calibration n w) = Inr False)"
proof -
  have m: "(0::int) \<le> 4" "(4::int) < 256" "(0::rat) < 15" by simp_all
  have e: "(0::int) \<le> 7" "(7::int) < 256" "(0::rat) < 20" by simp_all
  from calibration_outcome[OF m assms, folded test_motor_calibration_def]
    calibration_outcome[OF e assms, folded test_encoder_calibration_def]
  show ?thesis by (simp add: ac_simps)
qed

theorem calibration_poller_outcome_witness:
  "fst (test_motor_calibration 1 calibrating) = Inr True \<and>
   sent (snd (test_motor_calibration 1 calibrating)) = [cmd_frame 1 0x007 4] \<and>
   fst (test_motor_calibration 1 stuck) = Inr False \<and>
   sent (snd (test_motor_calibration 1 stuck)) = [cmd_frame 1 0x007 4, cmd_frame 1 0x007 1] \<and>
   15 \<le> clock (snd (test_motor_calibration 1 stuck)) \<and>
   fst (test_encoder_calibration 1 calibrating) = Inr True \<and>
   sent (snd (test_encoder_calibration 1 calibrating)) = [cmd_frame 1 0x007 7] \<and>
   fst (test_encoder_calibration 1 stuck) = Inr False \<and>
   sent (snd (test_encoder_calibration 1 stuck)) = [cmd_frame 1 0x007 7, cmd_frame 1 0x007 1] \<and>
   20 \<le> clock (snd (test_encoder_calibration 1 stuck))"
proof -
  have c: "sorted (map fst (inbox calibrating))" "heartbeats_readable 1 calibrating"
    by (simp_all add: calibrating_def heartbeats_readable_def heartbeat_frame_def)
  have s: "sorted (map fst (inbox stuck))" "heartbeats_readable 1 stuck"
    by (simp_all add: stuck_def heartbeats_readable_def heartbeat_frame_def)
  have ci: "\<exists>x\<in>set (inbox calibrating). idle_sample 1 x \<and> fst x < clock calibrating + 15"
    "\<exists>x\<in>set (inbox calibrating). idle_sample 1 x \<and> fst x < clock calibrating + 20"
    by (simp_all add: calibrating_def idle_sample_def heartbeat_frame_def)
  have si: "\<forall>x\<in>set (inbox stuck). idle_sample 1 x \<longrightarrow> clock stuck + 17 \<le> fst x"
    "\<forall>x\<in>set (inbox stuck). idle_sample 1 x \<longrightarrow> clock stuck + 22 \<le> fst x"
    by (simp_all add: stuck_def idle_sample_def heartbeat_frame_def)
  have z: "sent calibrating = []" "sent stuck = []" "clock stuck = 0"
    by (simp_all add: calibrating_def stuck_def)
  from calibration_poller_outcome[OF c] ci
  have 1: "fst (test_motor_calibration 1 calibrating) = Inr True"
    "fst (test_encoder_calibration 1 calibrating) = Inr True"
    by blast+
  from calibration_poller_outcome[OF c] 1
  have 2: "sent (snd (test_motor_calibration 1 calibrating)) = [cmd_frame 1 0x007 4]"
    "sent (snd (test_encoder_calibration 1 calibrating)) = [cmd_frame 1 0x007 7]"
    by (simp_all add: z)
  from calibration_poller_outcome[OF s] si
  have 3: "fst (test_motor_calibration 1 stuck) = Inr False"
    "fst (test_encoder_calibration 1 stuck) = Inr False"
    by blast+
  from calibration_poller_outcome[OF s] 3
  have 4: "sent (snd (test_motor_calibration 1 stuck)) = [cmd_frame 1 0x007 4, cmd_frame 1 0x007 1]"
    "15 \<le> clock (snd (test_motor_calibration 1 stuck))"
    "sent (snd (test_encoder_calibration 1 stuck)) = [cmd_frame 1 0x007 7, cmd_frame 1 0x007 1]"
    "20 \<le> clock (snd (test_encoder_calibration 1 stuck))"
    by (simp_all add: z)
  from 1 2 3 4 show ?thesis by simp
qed

end
